theory Spec2Isabelle
  imports Main "HOL-Library.Word" "HOL-Library.Sublist"
begin

unbundle bit_operations_syntax

section \<open>The demo scanner \<^verbatim>\<open>my_app\<close> (examples/demo/my_app.c)\<close>

text \<open>
  \<^verbatim>\<open>my_app.c\<close> is one function, \<^verbatim>\<open>main\<close>: a banner, then an endless loop that opens
  \<^verbatim>\<open>/var/log\<close>, walks its entries probing each with \<^verbatim>\<open>stat\<close>, \<^verbatim>\<open>lstat\<close> and
  \<^verbatim>\<open>access\<close>, reads a chunk of ten fixed log files and sleeps ten seconds.

  The embedding threads a record of the C variables through the statements of \<^verbatim>\<open>main\<close>.
  Everything the process does to the outside (a system or library call, a line of
  output) is appended to a trace, each call together with the value it returned, the way
  \<^verbatim>\<open>strace\<close> would log it. What a call returns is not decided by the program: it is read
  from a \<open>world\<close>, indexed by a logical clock that advances with every call, so that the
  file system may change between any two calls.
\<close>

subsection \<open>C types and constants of the system headers\<close>

text \<open>
  \<^verbatim>\<open>int\<close> is 32 bits; \<^verbatim>\<open>long\<close>, \<^verbatim>\<open>off_t\<close> and \<^verbatim>\<open>ssize_t\<close> are 64 bits (LP64). Signed
  values are read with \<open>sint\<close>. ISO C leaves signed overflow undefined; the words wrap,
  and the theorems that depend on a counter say how far it may go.
\<close>

type_synonym c_int = "32 word"
type_synonym c_long = "64 word"
type_synonym mode_t = "32 word"

text \<open>The two fields of \<^verbatim>\<open>struct stat\<close> that \<^verbatim>\<open>main\<close> reads.\<close>

record struct_stat =
  st_mode :: mode_t
  st_size :: c_long

text \<open>
  The values of \<^verbatim>\<open><sys/stat.h>\<close>, \<^verbatim>\<open><fcntl.h>\<close> and \<^verbatim>\<open><unistd.h>\<close> on Linux (octal 0170000,
  0040000, 0100000, 0120000; \<^verbatim>\<open>O_ACCMODE\<close> 03, \<^verbatim>\<open>O_CREAT\<close> 0100, \<^verbatim>\<open>O_TRUNC\<close> 01000,
  \<^verbatim>\<open>O_APPEND\<close> 02000).
\<close>

definition S_IFMT :: mode_t where "S_IFMT = 0xF000"
definition S_IFDIR :: mode_t where "S_IFDIR = 0x4000"
definition S_IFREG :: mode_t where "S_IFREG = 0x8000"
definition S_IFLNK :: mode_t where "S_IFLNK = 0xA000"

definition S_ISDIR :: "mode_t \<Rightarrow> bool" where
  "S_ISDIR m \<longleftrightarrow> m AND S_IFMT = S_IFDIR"

definition S_ISREG :: "mode_t \<Rightarrow> bool" where
  "S_ISREG m \<longleftrightarrow> m AND S_IFMT = S_IFREG"

definition O_RDONLY :: c_int where "O_RDONLY = 0"
definition O_ACCMODE :: c_int where "O_ACCMODE = 0x3"
definition O_CREAT :: c_int where "O_CREAT = 0x40"
definition O_TRUNC :: c_int where "O_TRUNC = 0x200"
definition O_APPEND :: c_int where "O_APPEND = 0x400"
definition R_OK :: c_int where "R_OK = 4"

subsection \<open>Events and the world\<close>

text \<open>An argument of a \<^verbatim>\<open>printf\<close> call: a string for \<^verbatim>\<open>%s\<close>, a number for \<^verbatim>\<open>%d\<close> and \<^verbatim>\<open>%ld\<close>.\<close>

datatype arg = Str string | Num int

text \<open>
  One event per call of \<^verbatim>\<open>main\<close>. A call that returns something carries the result last:
  \<open>Opendir\<close> the \<^verbatim>\<open>errno\<close> of a failure or the names the stream will deliver, \<open>Readdir\<close> the
  name (\<open>None\<close> for the \<^verbatim>\<open>NULL\<close> at the end of the stream), \<open>Stat\<close> and \<open>Lstat\<close> the buffer
  they filled (\<open>None\<close> when they returned -1), \<open>Access\<close> and \<open>Open\<close> their \<^verbatim>\<open>int\<close>, \<open>Read\<close>
  the requested length and its \<^verbatim>\<open>ssize_t\<close>.
\<close>

datatype event =
    Printf string "arg list"
  | Fprintf_stderr string "arg list"
  | Opendir string "c_int + string list"
  | Readdir "string option"
  | Closedir
  | Stat string "struct_stat option"
  | Lstat string "struct_stat option"
  | Access string c_int c_int
  | Open string c_int c_int
  | Read c_int nat c_long
  | Close c_int
  | Sleep nat

text \<open>
  The answers of the operating system and of the C library, at a given time. \<open>sys_read\<close>
  also takes the path the descriptor was opened on: descriptors are reused, the file
  behind one is what decides the read. \<open>sys_opendir\<close> gives the whole (finite) stream of
  the directory at the time it is opened.
\<close>

record world =
  sys_opendir :: "nat \<Rightarrow> string \<Rightarrow> c_int + string list"
  sys_stat :: "nat \<Rightarrow> string \<Rightarrow> struct_stat option"
  sys_lstat :: "nat \<Rightarrow> string \<Rightarrow> struct_stat option"
  sys_access :: "nat \<Rightarrow> string \<Rightarrow> c_int \<Rightarrow> c_int"
  sys_open :: "nat \<Rightarrow> string \<Rightarrow> c_int \<Rightarrow> c_int"
  sys_read :: "nat \<Rightarrow> string \<Rightarrow> c_int \<Rightarrow> nat \<Rightarrow> c_long"
  strerror :: "c_int \<Rightarrow> string"

text \<open>
  The variables of \<^verbatim>\<open>main\<close> (\<^verbatim>\<open>dir\<close> and \<^verbatim>\<open>entry\<close> are the list the directory loop walks),
  the clock and the trace.
\<close>

record proc =
  iteration :: c_int
  count :: c_int
  st :: struct_stat
  files_read :: c_int
  clock :: nat
  trace :: "event list"

subsection \<open>Primitives\<close>

definition emit :: "event \<Rightarrow> proc \<Rightarrow> proc" where
  "emit e s = s\<lparr>trace := trace s @ [e]\<rparr>"

text \<open>A call into the system: logged, and the clock advances.\<close>

definition syscall :: "event \<Rightarrow> proc \<Rightarrow> proc" where
  "syscall e s = emit e (s\<lparr>clock := Suc (clock s)\<rparr>)"

definition printf :: "string \<Rightarrow> arg list \<Rightarrow> proc \<Rightarrow> proc" where
  "printf fmt args s = emit (Printf fmt args) s"

definition fprintf_stderr :: "string \<Rightarrow> arg list \<Rightarrow> proc \<Rightarrow> proc" where
  "fprintf_stderr fmt args s = emit (Fprintf_stderr fmt args) s"

text \<open>
  \<^verbatim>\<open>snprintf(buf, n, ...)\<close>: of the formatted text \<open>out\<close>, the first \<open>n - 1\<close> characters are
  stored, followed by the terminating NUL; the result is the C string then in \<^verbatim>\<open>buf\<close>.
\<close>

definition snprintf :: "nat \<Rightarrow> string \<Rightarrow> string" where
  "snprintf n out = take (n - 1) out"

subsection \<open>The directory loop (lines 53 to 84)\<close>

text \<open>Lines 73 to 80: the line printed for one of the first entries, from \<^verbatim>\<open>st\<close>.\<close>

definition print_entry :: "string \<Rightarrow> proc \<Rightarrow> proc" where
  "print_entry d_name s =
    (let s = printf ''    - %s '' [Str d_name] s
     in if S_ISDIR (st_mode (st s)) then printf ''(directory)\<newline>'' [] s
        else if S_ISREG (st_mode (st s)) then
          printf ''(file, %ld bytes)\<newline>'' [Num (sint (st_size (st s)))] s
        else printf ''(other)\<newline>'' [] s)"

text \<open>
  Lines 58 to 83, the body of the loop for an entry that is not \<^verbatim>\<open>.\<close> or \<^verbatim>\<open>..\<close>.
  \<^verbatim>\<open>stat\<close> and \<^verbatim>\<open>lstat\<close> are both given \<^verbatim>\<open>&st\<close>: each fills it when it succeeds and leaves it
  as it was when it fails.
\<close>

definition probe_entry :: "world \<Rightarrow> string \<Rightarrow> proc \<Rightarrow> proc" where
  "probe_entry w d_name s =
    (let path = snprintf 512 (''/var/log/'' @ d_name);
         r = sys_stat w (clock s) path;
         s = syscall (Stat path r) s
     in case r of
          None \<Rightarrow> s\<lparr>count := count s + 1\<rparr>
        | Some buf \<Rightarrow>
            (let s = s\<lparr>st := buf\<rparr>;
                 r2 = sys_lstat w (clock s) path;
                 s = syscall (Lstat path r2) s;
                 s = (case r2 of None \<Rightarrow> s | Some buf2 \<Rightarrow> s\<lparr>st := buf2\<rparr>);
                 s = syscall (Access path R_OK (sys_access w (clock s) path R_OK)) s;
                 s = (if sint (count s) < 5 then print_entry d_name s else s)
             in s\<lparr>count := count s + 1\<rparr>))"

text \<open>
  The \<^verbatim>\<open>while ((entry = readdir(dir)) != NULL)\<close> loop, over the names the stream still
  holds.
\<close>

fun readdir_loop :: "world \<Rightarrow> string list \<Rightarrow> proc \<Rightarrow> proc" where
  "readdir_loop w [] s = syscall (Readdir None) s"
| "readdir_loop w (d_name # rest) s =
    (let s = syscall (Readdir (Some d_name)) s
     in if d_name = ''.'' \<or> d_name = ''..'' then readdir_loop w rest s
        else readdir_loop w rest (probe_entry w d_name s))"

subsection \<open>The sample files (lines 88 to 117)\<close>

definition log_files :: "string list" where
  "log_files =
    [''/var/log/messages'', ''/var/log/secure'', ''/var/log/cron'', ''/var/log/maillog'',
     ''/var/log/boot.log'', ''/var/log/dmesg'', ''/var/log/audit/audit.log'',
     ''/var/log/yum.log'', ''/var/log/spooler'', ''/var/log/tuned/tuned.log'']"

text \<open>Lines 107 to 115, the body of the \<^verbatim>\<open>for\<close> loop for one path.\<close>

definition sample_file :: "world \<Rightarrow> string \<Rightarrow> proc \<Rightarrow> proc" where
  "sample_file w file s =
    (let fd = sys_open w (clock s) file O_RDONLY;
         s = syscall (Open file O_RDONLY fd) s
     in if 0 \<le> sint fd then
          (let bytes = sys_read w (clock s) file fd 1024;
               s = syscall (Read fd 1024 bytes) s;
               s = syscall (Close fd) s;
               s = printf ''    - %s (%ld bytes read)\<newline>'' [Str file, Num (sint bytes)] s
           in s\<lparr>files_read := files_read s + 1\<rparr>)
        else s)"

text \<open>The \<^verbatim>\<open>for\<close> loop, up to the \<^verbatim>\<open>NULL\<close> that ends the array.\<close>

fun sample_loop :: "world \<Rightarrow> string list \<Rightarrow> proc \<Rightarrow> proc" where
  "sample_loop w [] s = s"
| "sample_loop w (file # rest) s = sample_loop w rest (sample_file w file s)"

text \<open>Lines 88 to 117: the third phase of an iteration.\<close>

definition sample_files :: "world \<Rightarrow> proc \<Rightarrow> proc" where
  "sample_files w s =
    (let s = printf ''[3] Reading multiple log files...\<newline>'' [] s;
         s = s\<lparr>files_read := 0\<rparr>;
         s = sample_loop w log_files s
     in printf ''    - Successfully read %d log files\<newline>'' [Num (sint (files_read s))] s)"

subsection \<open>One iteration and the main loop (lines 35 to 123)\<close>

text \<open>Lines 48 to 86: the second phase, once \<^verbatim>\<open>opendir\<close> has returned a stream.\<close>

definition probe_directory :: "world \<Rightarrow> string list \<Rightarrow> proc \<Rightarrow> proc" where
  "probe_directory w names s =
    (let s = printf ''    - Successfully opened /var/log\<newline>'' [] s;
         s = printf ''[2] Reading directory contents and probing metadata...\<newline>'' [] s;
         s = s\<lparr>count := 0\<rparr>;
         s = readdir_loop w names s;
         s = syscall Closedir s
     in printf ''    - Probed metadata for %d total entries\<newline>'' [Num (sint (count s))] s)"

text \<open>Lines 36 to 122: the body of \<^verbatim>\<open>while (1)\<close>.\<close>

definition scan_iteration :: "world \<Rightarrow> proc \<Rightarrow> proc" where
  "scan_iteration w s =
    (let s = s\<lparr>iteration := iteration s + 1\<rparr>;
         s = printf ''\<newline>[Iteration %d - %s]\<newline>''
               [Num (sint (iteration s)),
                Str (if iteration s = 1 then ''First scan'' else ''Periodic scan'')] s;
         s = printf ''[1] Opening /var/log directory...\<newline>'' [] s;
         r = sys_opendir w (clock s) ''/var/log'';
         s = syscall (Opendir ''/var/log'' r) s
     in case r of
          Inl errno \<Rightarrow>
            (let s = fprintf_stderr ''ERROR: Failed to open /var/log: %s\<newline>''
                       [Str (strerror w errno)] s
             in syscall (Sleep 10) s)
        | Inr names \<Rightarrow>
            (let s = probe_directory w names s;
                 s = sample_files w s;
                 s = printf ''\<newline>>> Scan complete. Sleeping 10 seconds...\<newline>'' [] s;
                 s = printf ''   (Press Ctrl+C to stop)\<newline>'' [] s
             in syscall (Sleep 10) s))"

text \<open>
  \<^verbatim>\<open>while (1)\<close> never ends: \<open>main_loop w n\<close> is its first \<open>n\<close> iterations, and the run of
  the program is the limit of its traces, each a prefix of the next.
\<close>

fun main_loop :: "world \<Rightarrow> nat \<Rightarrow> proc \<Rightarrow> proc" where
  "main_loop w 0 s = s"
| "main_loop w (Suc n) s = main_loop w n (scan_iteration w s)"

text \<open>
  Lines 19 to 33: \<^verbatim>\<open>main\<close> up to the loop. \<^verbatim>\<open>st\<close> is not initialised (\<open>st0\<close> is whatever
  the stack holds), \<^verbatim>\<open>count\<close> and \<^verbatim>\<open>iteration\<close> start at 0.
\<close>

definition banner :: "proc \<Rightarrow> proc" where
  "banner s =
    (let s = printf ''========================================================\<newline>'' [] s;
         s = printf ''my_app: Demo Application Starting\<newline>'' [] s;
         s = printf ''========================================================\<newline>'' [] s;
         s = printf ''Purpose: Read files from /var/log directory\<newline>'' [] s;
         s = printf ''SELinux Context: my_app_t\<newline>'' [] s;
         s = printf ''Running continuously (Ctrl+C to stop)\<newline>'' [] s
     in printf ''========================================================\<newline>\<newline>'' [] s)"

definition main :: "world \<Rightarrow> struct_stat \<Rightarrow> nat \<Rightarrow> proc" where
  "main w st0 n =
    main_loop w n
      (banner \<lparr>iteration = 0, count = 0, st = st0, files_read = 0, clock = 0, trace = []\<rparr>)"

text \<open>The events a piece of the program adds when it takes the state \<open>s\<close> to \<open>s'\<close>.\<close>

definition new_events :: "proc \<Rightarrow> proc \<Rightarrow> event list" where
  "new_events s s' = drop (length (trace s)) (trace s')"

section \<open>Observations on a trace\<close>

text \<open>The entries the directory loop does not skip (line 54).\<close>

definition nondot :: "string list \<Rightarrow> string list" where
  "nondot names = filter (\<lambda>d. d \<noteq> ''.'' \<and> d \<noteq> ''..'') names"

text \<open>The second half of the line of an entry (lines 74 to 80), from a buffer.\<close>

definition kind_line :: "struct_stat \<Rightarrow> event" where
  "kind_line b =
    (if S_ISDIR (st_mode b) then Printf ''(directory)\<newline>'' []
     else if S_ISREG (st_mode b) then Printf ''(file, %ld bytes)\<newline>'' [Num (sint (st_size b))]
     else Printf ''(other)\<newline>'' [])"

text \<open>The state in which \<^verbatim>\<open>opendir\<close> has just returned (lines 36 to 42).\<close>

definition opened :: "world \<Rightarrow> proc \<Rightarrow> proc" where
  "opened w s =
    (let s = s\<lparr>iteration := iteration s + 1\<rparr>;
         s = printf ''\<newline>[Iteration %d - %s]\<newline>''
               [Num (sint (iteration s)),
                Str (if iteration s = 1 then ''First scan'' else ''Periodic scan'')] s;
         s = printf ''[1] Opening /var/log directory...\<newline>'' [] s
     in syscall (Opendir ''/var/log'' (sys_opendir w (clock s) ''/var/log'')) s)"

text \<open>
  An event leaves every file system object as it is: output goes to the two standard
  streams, the calls on directories, metadata and descriptors only read, and an \<^verbatim>\<open>open\<close>
  asks for nothing but reading (access mode \<^verbatim>\<open>O_RDONLY\<close>, no creation, truncation or
  appending).
\<close>

fun read_only :: "event \<Rightarrow> bool" where
  "read_only (Printf fmt args) = True"
| "read_only (Fprintf_stderr fmt args) = True"
| "read_only (Opendir path r) = True"
| "read_only (Readdir r) = True"
| "read_only Closedir = True"
| "read_only (Stat path r) = True"
| "read_only (Lstat path r) = True"
| "read_only (Access path amode r) = True"
| "read_only (Open path flags fd) =
     (flags AND (O_ACCMODE OR O_CREAT OR O_TRUNC OR O_APPEND) = O_RDONLY)"
| "read_only (Read fd n r) = True"
| "read_only (Close fd) = True"
| "read_only (Sleep n) = True"

text \<open>The three metadata probes.\<close>

fun is_probe :: "event \<Rightarrow> bool" where
  "is_probe (Stat path r) = True"
| "is_probe (Lstat path r) = True"
| "is_probe (Access path amode r) = True"
| "is_probe e = False"

text \<open>
  The probes of a list of paths, as the loop body issues them: for each path in turn
  either a failed \<^verbatim>\<open>stat\<close> alone, or a successful \<^verbatim>\<open>stat\<close>, then \<^verbatim>\<open>lstat\<close>, then
  \<^verbatim>\<open>access\<close> with \<^verbatim>\<open>R_OK\<close>, all on that path.
\<close>

fun probes_follow :: "string list \<Rightarrow> event list \<Rightarrow> bool" where
  "probes_follow [] evs = (evs = [])"
| "probes_follow (p # ps) evs =
    (case evs of
       Stat q None # rest \<Rightarrow> q = p \<and> probes_follow ps rest
     | Stat q (Some b) # Lstat q1 r1 # Access q2 amode r2 # rest \<Rightarrow>
         q = p \<and> q1 = p \<and> q2 = p \<and> amode = R_OK \<and> probes_follow ps rest
     | _ \<Rightarrow> False)"


text \<open>What \<^verbatim>\<open>stat\<close> returned, for each of its calls.\<close>

fun stat_result :: "event \<Rightarrow> struct_stat option option" where
  "stat_result (Stat path r) = Some r"
| "stat_result e = None"

text \<open>The paths on which \<^verbatim>\<open>stat\<close> succeeded.\<close>

fun stat_ok :: "event \<Rightarrow> string option" where
  "stat_ok (Stat path (Some b)) = Some path"
| "stat_ok e = None"

text \<open>The name in the first half of the line of an entry (line 73).\<close>

fun entry_line :: "event \<Rightarrow> string option" where
  "entry_line (Printf fmt args) =
     (if fmt = ''    - %s '' then (case args of [Str d] \<Rightarrow> Some d | _ \<Rightarrow> None) else None)"
| "entry_line e = None"

text \<open>The number in the report of line 86.\<close>

fun reported_total :: "event \<Rightarrow> int option" where
  "reported_total (Printf fmt args) =
     (if fmt = ''    - Probed metadata for %d total entries\<newline>''
      then (case args of [Num n] \<Rightarrow> Some n | _ \<Rightarrow> None) else None)"
| "reported_total e = None"

text \<open>The number in the report of line 117.\<close>

fun reported_reads :: "event \<Rightarrow> int option" where
  "reported_reads (Printf fmt args) =
     (if fmt = ''    - Successfully read %d log files\<newline>''
      then (case args of [Num n] \<Rightarrow> Some n | _ \<Rightarrow> None) else None)"
| "reported_reads e = None"

text \<open>What \<^verbatim>\<open>open\<close> returned, for each of its calls.\<close>

fun open_result :: "event \<Rightarrow> c_int option" where
  "open_result (Open path flags fd) = Some fd"
| "open_result e = None"

text \<open>The events of the body of the \<^verbatim>\<open>for\<close> loop: the calls on a file and its line.\<close>

fun file_event :: "event \<Rightarrow> bool" where
  "file_event (Open path flags fd) = True"
| "file_event (Read fd n r) = True"
| "file_event (Close fd) = True"
| "file_event (Printf fmt args) = (fmt = ''    - %s (%ld bytes read)\<newline>'')"
| "file_event e = False"

text \<open>
  The file events of a list of paths, as the \<^verbatim>\<open>for\<close> loop issues them: for each path in
  turn an \<^verbatim>\<open>open\<close> with \<^verbatim>\<open>O_RDONLY\<close>; nothing more when it returned a negative value;
  otherwise one \<^verbatim>\<open>read\<close> of 1024 bytes on the descriptor, its \<^verbatim>\<open>close\<close>, and the line
  with the path and what \<^verbatim>\<open>read\<close> returned.
\<close>

fun sampled :: "string list \<Rightarrow> event list \<Rightarrow> bool" where
  "sampled [] evs = (evs = [])"
| "sampled (f # fs) evs =
    (case evs of
       Open path flags fd # rest \<Rightarrow>
         path = f \<and> flags = O_RDONLY \<and>
         (if 0 \<le> sint fd then
            (case rest of
               Read fd1 n bytes # Close fd2 # Printf fmt args # rest' \<Rightarrow>
                 fd1 = fd \<and> n = 1024 \<and> fd2 = fd \<and>
                 fmt = ''    - %s (%ld bytes read)\<newline>'' \<and>
                 args = [Str f, Num (sint bytes)] \<and> sampled fs rest'
             | _ \<Rightarrow> False)
          else sampled fs rest)
     | _ \<Rightarrow> False)"

text \<open>The events of the directory loop, by kind.\<close>

fun entry_event :: "event \<Rightarrow> bool" where
  "entry_event (Readdir r) = True"
| "entry_event (Stat path r) = True"
| "entry_event (Lstat path r) = True"
| "entry_event (Access path amode r) = True"
| "entry_event (Printf fmt args) =
     (fmt = ''    - %s '' \<or> fmt = ''(directory)\<newline>'' \<or> fmt = ''(file, %ld bytes)\<newline>'' \<or>
      fmt = ''(other)\<newline>'')"
| "entry_event e = False"

text \<open>The events of the third phase, by kind.\<close>

fun sampling_event :: "event \<Rightarrow> bool" where
  "sampling_event (Open path flags fd) = True"
| "sampling_event (Read fd n r) = True"
| "sampling_event (Close fd) = True"
| "sampling_event (Printf fmt args) =
     (fmt = ''[3] Reading multiple log files...\<newline>'' \<or>
      fmt = ''    - %s (%ld bytes read)\<newline>'' \<or>
      fmt = ''    - Successfully read %d log files\<newline>'')"
| "sampling_event e = False"

text \<open>The lines written to the standard error stream.\<close>

fun on_stderr :: "event \<Rightarrow> bool" where
  "on_stderr (Fprintf_stderr fmt args) = True"
| "on_stderr e = False"

text \<open>
  A world that does not change: every answer depends on the arguments of the call only,
  not on the time of the call.
\<close>

definition static :: "world \<Rightarrow> bool" where
  "static w \<longleftrightarrow>
     (\<forall>t t'. sys_opendir w t = sys_opendir w t') \<and>
     (\<forall>t t'. sys_stat w t = sys_stat w t') \<and>
     (\<forall>t t'. sys_lstat w t = sys_lstat w t') \<and>
     (\<forall>t t'. sys_access w t = sys_access w t') \<and>
     (\<forall>t t'. sys_open w t = sys_open w t') \<and>
     (\<forall>t t'. sys_read w t = sys_read w t')"

subsection \<open>Concrete worlds\<close>

text \<open>
  A static world from tables: what \<^verbatim>\<open>opendir\<close> of \<^verbatim>\<open>/var/log\<close> gives, the buffers of
  \<^verbatim>\<open>stat\<close> and \<^verbatim>\<open>lstat\<close> by path, and by path what \<^verbatim>\<open>read\<close> returns on the file
  (\<open>None\<close>: the file cannot be opened). A file that opens gets descriptor 3.
\<close>

definition table_world ::
  "(c_int + string list) \<Rightarrow> (string \<Rightarrow> struct_stat option) \<Rightarrow> (string \<Rightarrow> struct_stat option)
     \<Rightarrow> (string \<Rightarrow> c_long option) \<Rightarrow> world" where
  "table_world dir stat_of lstat_of read_of =
    \<lparr>sys_opendir = (\<lambda>t path. dir),
     sys_stat = (\<lambda>t path. stat_of path),
     sys_lstat = (\<lambda>t path. lstat_of path),
     sys_access = (\<lambda>t path amode. case stat_of path of None \<Rightarrow> - 1 | Some b \<Rightarrow> 0),
     sys_open = (\<lambda>t path flags. case read_of path of None \<Rightarrow> - 1 | Some n \<Rightarrow> 3),
     sys_read = (\<lambda>t path fd n. case read_of path of None \<Rightarrow> - 1 | Some r \<Rightarrow> r),
     strerror = (\<lambda>e. if e = 2 then ''No such file or directory'' else ''Permission denied'')\<rparr>"

definition regular :: "c_long \<Rightarrow> struct_stat" where
  "regular n = \<lparr>st_mode = S_IFREG OR 0x1A4, st_size = n\<rparr>"

definition directory :: struct_stat where
  "directory = \<lparr>st_mode = S_IFDIR OR 0x1ED, st_size = 4096\<rparr>"

definition symlink :: "c_long \<Rightarrow> struct_stat" where
  "symlink n = \<lparr>st_mode = S_IFLNK OR 0x1FF, st_size = n\<rparr>"

text \<open>The state at the first iteration, with a zeroed \<^verbatim>\<open>st\<close>.\<close>

definition start :: proc where
  "start = \<lparr>iteration = 0, count = 0, st = \<lparr>st_mode = 0, st_size = 0\<rparr>, files_read = 0,
            clock = 0, trace = []\<rparr>"

text \<open>
  \<^verbatim>\<open>/var/log\<close> holds the file \<^verbatim>\<open>a.log\<close> of 100 bytes and the directory \<^verbatim>\<open>sub\<close>; of the
  sample files only \<^verbatim>\<open>/var/log/messages\<close> exists, with 50 bytes.
\<close>

definition small_world :: world where
  "small_world =
    table_world (Inr [''.'', ''..'', ''a.log'', ''sub''])
      (\<lambda>p. if p = ''/var/log/a.log'' then Some (regular 100)
           else if p = ''/var/log/sub'' then Some directory else None)
      (\<lambda>p. if p = ''/var/log/a.log'' then Some (regular 100)
           else if p = ''/var/log/sub'' then Some directory else None)
      (\<lambda>p. if p = ''/var/log/messages'' then Some 50 else None)"

text \<open>\<^verbatim>\<open>/var/log\<close> does not exist (\<^verbatim>\<open>ENOENT\<close> is 2).\<close>

definition missing_world :: world where
  "missing_world = table_world (Inl 2) (\<lambda>p. None) (\<lambda>p. None) (\<lambda>p. None)"

text \<open>
  \<^verbatim>\<open>/var/log\<close> holds one entry, \<^verbatim>\<open>latest\<close>, a symbolic link to a directory: \<^verbatim>\<open>stat\<close> follows
  the link and reports the directory, \<^verbatim>\<open>lstat\<close> reports the link itself.
\<close>

definition symlink_world :: world where
  "symlink_world =
    table_world (Inr [''.'', ''..'', ''latest''])
      (\<lambda>p. if p = ''/var/log/latest'' then Some directory else None)
      (\<lambda>p. if p = ''/var/log/latest'' then Some (symlink 7) else None)
      (\<lambda>p. None)"

text \<open>
  \<^verbatim>\<open>/var/log\<close> holds six entries, \<^verbatim>\<open>a\<close> to \<^verbatim>\<open>f\<close>; \<^verbatim>\<open>a\<close> is a dangling symbolic link, on
  which \<^verbatim>\<open>stat\<close> fails, the other five are files of 10 bytes.
\<close>

definition dangling_world :: world where
  "dangling_world =
    table_world (Inr [''.'', ''..'', ''a'', ''b'', ''c'', ''d'', ''e'', ''f''])
      (\<lambda>p. if p = ''/var/log/a'' then None else Some (regular 10))
      (\<lambda>p. if p = ''/var/log/a'' then Some (symlink 4) else Some (regular 10))
      (\<lambda>p. None)"



section \<open>What each piece of the program does to the state\<close>

subsection \<open>Fields after a primitive\<close>

lemma emit_simps [simp]:
  "trace (emit e s) = trace s @ [e]" "clock (emit e s) = clock s" "count (emit e s) = count s"
  "st (emit e s) = st s" "files_read (emit e s) = files_read s"
  "iteration (emit e s) = iteration s"
  by (simp_all add: emit_def)

lemma syscall_simps [simp]:
  "trace (syscall e s) = trace s @ [e]" "clock (syscall e s) = Suc (clock s)"
  "count (syscall e s) = count s" "st (syscall e s) = st s"
  "files_read (syscall e s) = files_read s" "iteration (syscall e s) = iteration s"
  by (simp_all add: syscall_def)

lemma printf_simps [simp]:
  "trace (printf f a s) = trace s @ [Printf f a]" "clock (printf f a s) = clock s"
  "count (printf f a s) = count s" "st (printf f a s) = st s"
  "files_read (printf f a s) = files_read s" "iteration (printf f a s) = iteration s"
  by (simp_all add: printf_def)

lemma fprintf_stderr_simps [simp]:
  "trace (fprintf_stderr f a s) = trace s @ [Fprintf_stderr f a]"
  "clock (fprintf_stderr f a s) = clock s" "count (fprintf_stderr f a s) = count s"
  "st (fprintf_stderr f a s) = st s" "files_read (fprintf_stderr f a s) = files_read s"
  "iteration (fprintf_stderr f a s) = iteration s"
  by (simp_all add: fprintf_stderr_def)

subsection \<open>New events\<close>

lemma new_events_app: "trace s' = trace s @ evs \<Longrightarrow> new_events s s' = evs"
  by (simp add: new_events_def)

lemma prefix_new_events:
  "prefix (trace s) (trace s') \<Longrightarrow> trace s' = trace s @ new_events s s'"
  by (auto simp: new_events_def prefix_def)

lemma new_events_trans:
  assumes "prefix (trace a) (trace b)" and "prefix (trace b) (trace c)"
  shows "new_events a c = new_events a b @ new_events b c"
proof -
  from assms obtain xs ys where "trace b = trace a @ xs" and "trace c = trace b @ ys"
    by (auto simp: prefix_def)
  then show ?thesis by (simp add: new_events_def)
qed

lemma new_events_update [simp]:
  "new_events s (s'\<lparr>count := c\<rparr>) = new_events s s'"
  "new_events s (s'\<lparr>files_read := c\<rparr>) = new_events s s'"
  "new_events s (s'\<lparr>iteration := c\<rparr>) = new_events s s'"
  "new_events s (s'\<lparr>st := b\<rparr>) = new_events s s'"
  by (simp_all add: new_events_def)

subsection \<open>One directory entry\<close>

lemma print_entry_simps [simp]:
  "clock (print_entry d s) = clock s" "count (print_entry d s) = count s"
  "st (print_entry d s) = st s" "files_read (print_entry d s) = files_read s"
  "iteration (print_entry d s) = iteration s"
  by (simp_all add: print_entry_def Let_def)

lemma print_entry_trace:
  "trace (print_entry d s) = trace s @ [Printf ''    - %s '' [Str d], kind_line (st s)]"
  by (simp add: print_entry_def kind_line_def Let_def)

text \<open>The events of one pass of the loop body, by the answers of the world.\<close>

lemma probe_entry_trace:
  "trace (probe_entry w d s) = trace s @
    (let path = snprintf 512 (''/var/log/'' @ d) in
     case sys_stat w (clock s) path of
       None \<Rightarrow> [Stat path None]
     | Some buf \<Rightarrow>
         [Stat path (Some buf),
          Lstat path (sys_lstat w (Suc (clock s)) path),
          Access path R_OK (sys_access w (Suc (Suc (clock s))) path R_OK)]
         @ (if sint (count s) < 5
            then [Printf ''    - %s '' [Str d],
                  kind_line (case sys_lstat w (Suc (clock s)) path of
                               None \<Rightarrow> buf | Some buf2 \<Rightarrow> buf2)]
            else []))"
  by (simp add: probe_entry_def print_entry_trace Let_def split: option.splits)

lemma probe_entry_events:
  "new_events s (probe_entry w d s) =
    (let path = snprintf 512 (''/var/log/'' @ d) in
     case sys_stat w (clock s) path of
       None \<Rightarrow> [Stat path None]
     | Some buf \<Rightarrow>
         [Stat path (Some buf),
          Lstat path (sys_lstat w (Suc (clock s)) path),
          Access path R_OK (sys_access w (Suc (Suc (clock s))) path R_OK)]
         @ (if sint (count s) < 5
            then [Printf ''    - %s '' [Str d],
                  kind_line (case sys_lstat w (Suc (clock s)) path of
                               None \<Rightarrow> buf | Some buf2 \<Rightarrow> buf2)]
            else []))"
  by (rule new_events_app) (rule probe_entry_trace)

lemma prefix_probe_entry: "prefix (trace s) (trace (probe_entry w d s))"
  by (simp add: probe_entry_trace)

lemma probe_entry_simps [simp]:
  "count (probe_entry w d s) = count s + 1"
  "files_read (probe_entry w d s) = files_read s"
  "iteration (probe_entry w d s) = iteration s"
  by (simp_all add: probe_entry_def Let_def split: option.splits)

subsection \<open>The directory loop\<close>

lemma nondot_simps [simp]:
  "nondot [] = []"
  "nondot (d # rest) = (if d = ''.'' \<or> d = ''..'' then nondot rest else d # nondot rest)"
  by (auto simp: nondot_def)

lemma prefix_readdir_loop: "prefix (trace s) (trace (readdir_loop w names s))"
proof (induction names arbitrary: s)
  case Nil
  show ?case by simp
next
  case (Cons d rest)
  have a: "prefix (trace s) (trace (syscall (Readdir (Some d)) s))" by simp
  show ?case
  proof (cases "d = ''.'' \<or> d = ''..''")
    case True
    then show ?thesis
      using prefix_order.trans [OF a Cons.IH] by (simp add: Let_def)
  next
    case False
    then show ?thesis
      using prefix_order.trans [OF prefix_order.trans [OF a prefix_probe_entry] Cons.IH]
      by (simp add: Let_def)
  qed
qed

lemma readdir_loop_simps [simp]:
  "files_read (readdir_loop w names s) = files_read s"
  "iteration (readdir_loop w names s) = iteration s"
  by (induction names arbitrary: s) (simp_all add: Let_def)

lemma readdir_loop_count:
  "count (readdir_loop w names s) = count s + of_nat (length (nondot names))"
  by (induction names arbitrary: s) (simp_all add: Let_def)

lemma readdir_loop_events_Nil: "new_events s (readdir_loop w [] s) = [Readdir None]"
  by (simp add: new_events_def)

lemma readdir_loop_events_dot:
  assumes "d = ''.'' \<or> d = ''..''"
  shows "new_events s (readdir_loop w (d # rest) s) =
     Readdir (Some d) #
     new_events (syscall (Readdir (Some d)) s)
       (readdir_loop w rest (syscall (Readdir (Some d)) s))"
proof -
  have "new_events s (readdir_loop w rest (syscall (Readdir (Some d)) s)) =
      new_events s (syscall (Readdir (Some d)) s) @
      new_events (syscall (Readdir (Some d)) s)
        (readdir_loop w rest (syscall (Readdir (Some d)) s))"
    by (rule new_events_trans) (simp, rule prefix_readdir_loop)
  with assms show ?thesis by (simp add: Let_def new_events_def)
qed

lemma readdir_loop_events_entry:
  assumes "\<not> (d = ''.'' \<or> d = ''..'')"
  shows "new_events s (readdir_loop w (d # rest) s) =
     Readdir (Some d) #
     new_events (syscall (Readdir (Some d)) s) (probe_entry w d (syscall (Readdir (Some d)) s)) @
     new_events (probe_entry w d (syscall (Readdir (Some d)) s))
       (readdir_loop w rest (probe_entry w d (syscall (Readdir (Some d)) s)))"
proof -
  define s1 where "s1 = syscall (Readdir (Some d)) s"
  define s2 where "s2 = probe_entry w d s1"
  have p1: "prefix (trace s) (trace s1)" and e1: "new_events s s1 = [Readdir (Some d)]"
    by (simp_all add: s1_def new_events_def)
  have p2: "prefix (trace s1) (trace s2)"
    by (simp add: s2_def prefix_probe_entry)
  have p3: "prefix (trace s2) (trace (readdir_loop w rest s2))"
    by (rule prefix_readdir_loop)
  have r: "readdir_loop w (d # rest) s = readdir_loop w rest s2"
    using assms by (simp add: s1_def s2_def Let_def)
  have "new_events s (readdir_loop w rest s2)
        = new_events s s1 @ new_events s1 s2 @ new_events s2 (readdir_loop w rest s2)"
    using new_events_trans [OF p1 prefix_order.trans [OF p2 p3]] new_events_trans [OF p2 p3]
    by simp
  then show ?thesis
    unfolding r e1 by (simp add: s1_def s2_def)
qed

subsection \<open>The sample files\<close>

lemma sample_file_trace:
  "trace (sample_file w f s) = trace s @
    (let fd = sys_open w (clock s) f O_RDONLY in
     Open f O_RDONLY fd #
     (if 0 \<le> sint fd then
        (let bytes = sys_read w (Suc (clock s)) f fd 1024 in
         [Read fd 1024 bytes, Close fd,
          Printf ''    - %s (%ld bytes read)\<newline>'' [Str f, Num (sint bytes)]])
      else []))"
  by (simp add: sample_file_def Let_def)

lemma sample_file_events:
  "new_events s (sample_file w f s) =
    (let fd = sys_open w (clock s) f O_RDONLY in
     Open f O_RDONLY fd #
     (if 0 \<le> sint fd then
        (let bytes = sys_read w (Suc (clock s)) f fd 1024 in
         [Read fd 1024 bytes, Close fd,
          Printf ''    - %s (%ld bytes read)\<newline>'' [Str f, Num (sint bytes)]])
      else []))"
  by (rule new_events_app) (rule sample_file_trace)

lemma prefix_sample_file: "prefix (trace s) (trace (sample_file w f s))"
  by (simp add: sample_file_trace)

lemma sample_file_simps [simp]:
  "count (sample_file w f s) = count s"
  "iteration (sample_file w f s) = iteration s"
  "st (sample_file w f s) = st s"
  "files_read (sample_file w f s) =
     (if 0 \<le> sint (sys_open w (clock s) f O_RDONLY) then files_read s + 1 else files_read s)"
  by (simp_all add: sample_file_def Let_def)

lemma prefix_sample_loop: "prefix (trace s) (trace (sample_loop w fs s))"
proof (induction fs arbitrary: s)
  case Nil
  show ?case by simp
next
  case (Cons f rest)
  show ?case using prefix_order.trans [OF prefix_sample_file Cons.IH] by simp
qed

lemma sample_loop_simps [simp]:
  "count (sample_loop w fs s) = count s"
  "iteration (sample_loop w fs s) = iteration s"
  "st (sample_loop w fs s) = st s"
  by (induction fs arbitrary: s) simp_all

lemma sample_loop_events_Cons:
  "new_events s (sample_loop w (f # rest) s) =
     new_events s (sample_file w f s) @
     new_events (sample_file w f s) (sample_loop w rest (sample_file w f s))"
  using new_events_trans [OF prefix_sample_file prefix_sample_loop] by simp

lemma sample_files_simps [simp]:
  "count (sample_files w s) = count s"
  "iteration (sample_files w s) = iteration s"
  "st (sample_files w s) = st s"
  by (simp_all add: sample_files_def Let_def)

lemma sample_files_trace:
  "trace (sample_files w s) = trace s @
     (let s1 = (printf ''[3] Reading multiple log files...\<newline>'' [] s)\<lparr>files_read := 0\<rparr>;
          s2 = sample_loop w log_files s1
      in Printf ''[3] Reading multiple log files...\<newline>'' [] # new_events s1 s2 @
         [Printf ''    - Successfully read %d log files\<newline>'' [Num (sint (files_read s2))]])"
proof -
  define s1 where "s1 = (printf ''[3] Reading multiple log files...\<newline>'' [] s)\<lparr>files_read := 0\<rparr>"
  define s2 where "s2 = sample_loop w log_files s1"
  have t1: "trace s1 = trace s @ [Printf ''[3] Reading multiple log files...\<newline>'' []]"
    by (simp add: s1_def)
  have t2: "trace s2 = trace s1 @ new_events s1 s2"
    unfolding s2_def by (rule prefix_new_events [OF prefix_sample_loop])
  have r: "sample_files w s =
      printf ''    - Successfully read %d log files\<newline>'' [Num (sint (files_read s2))] s2"
    by (simp add: sample_files_def s1_def s2_def Let_def)
  have "trace (sample_files w s) = trace s @
     Printf ''[3] Reading multiple log files...\<newline>'' [] # new_events s1 s2 @
     [Printf ''    - Successfully read %d log files\<newline>'' [Num (sint (files_read s2))]]"
    unfolding r by (simp add: t2 t1)
  then show ?thesis
    by (simp only: Let_def s1_def s2_def)
qed

lemma prefix_sample_files: "prefix (trace s) (trace (sample_files w s))"
  by (simp add: sample_files_trace)

subsection \<open>The phases of an iteration\<close>

lemma probe_directory_simps [simp]:
  "files_read (probe_directory w names s) = files_read s"
  "iteration (probe_directory w names s) = iteration s"
  "count (probe_directory w names s) = of_nat (length (nondot names))"
  by (simp_all add: probe_directory_def Let_def readdir_loop_count)

lemma probe_directory_trace:
  "trace (probe_directory w names s) = trace s @
     (let s1 = (printf ''[2] Reading directory contents and probing metadata...\<newline>'' []
                 (printf ''    - Successfully opened /var/log\<newline>'' [] s))\<lparr>count := 0\<rparr>
      in [Printf ''    - Successfully opened /var/log\<newline>'' [],
          Printf ''[2] Reading directory contents and probing metadata...\<newline>'' []] @
         new_events s1 (readdir_loop w names s1) @
         [Closedir,
          Printf ''    - Probed metadata for %d total entries\<newline>''
            [Num (sint (word_of_nat (length (nondot names)) :: c_int))]])"
proof -
  define s1 where "s1 = (printf ''[2] Reading directory contents and probing metadata...\<newline>'' []
                 (printf ''    - Successfully opened /var/log\<newline>'' [] s))\<lparr>count := 0\<rparr>"
  define s2 where "s2 = readdir_loop w names s1"
  have t1: "trace s1 = trace s @ [Printf ''    - Successfully opened /var/log\<newline>'' [],
          Printf ''[2] Reading directory contents and probing metadata...\<newline>'' []]"
    by (simp add: s1_def)
  have t2: "trace s2 = trace s1 @ new_events s1 s2"
    unfolding s2_def by (rule prefix_new_events [OF prefix_readdir_loop])
  have c: "count s2 = of_nat (length (nondot names))"
    by (simp add: s2_def readdir_loop_count s1_def)
  have r: "probe_directory w names s =
      printf ''    - Probed metadata for %d total entries\<newline>'' [Num (sint (count s2))]
        (syscall Closedir s2)"
    by (simp add: probe_directory_def s1_def s2_def Let_def)
  have "trace (probe_directory w names s) = trace s @
         [Printf ''    - Successfully opened /var/log\<newline>'' [],
          Printf ''[2] Reading directory contents and probing metadata...\<newline>'' []] @
         new_events s1 s2 @
         [Closedir,
          Printf ''    - Probed metadata for %d total entries\<newline>''
            [Num (sint (word_of_nat (length (nondot names)) :: c_int))]]"
    unfolding r by (simp add: t2 t1 c)
  then show ?thesis
    by (simp only: Let_def s1_def s2_def)
qed

lemma prefix_probe_directory: "prefix (trace s) (trace (probe_directory w names s))"
  by (simp add: probe_directory_trace Let_def)

lemma opened_trace:
  "trace (opened w s) = trace s @
     [Printf ''\<newline>[Iteration %d - %s]\<newline>''
        [Num (sint (iteration s + 1)),
         Str (if iteration s + 1 = 1 then ''First scan'' else ''Periodic scan'')],
      Printf ''[1] Opening /var/log directory...\<newline>'' [],
      Opendir ''/var/log'' (sys_opendir w (clock s) ''/var/log'')]"
  by (simp add: opened_def Let_def)

lemma scan_iteration_opened:
  assumes "sys_opendir w (clock s) ''/var/log'' = Inr names"
  shows "scan_iteration w s =
     syscall (Sleep 10)
       (printf ''   (Press Ctrl+C to stop)\<newline>'' []
          (printf ''\<newline>>> Scan complete. Sleeping 10 seconds...\<newline>'' []
             (sample_files w (probe_directory w names (opened w s)))))"
  using assms by (simp add: scan_iteration_def opened_def Let_def)

lemma scan_iteration_events:
  assumes "sys_opendir w (clock s) ''/var/log'' = Inr names"
  shows "new_events s (scan_iteration w s) =
     (let s1 = opened w s; s2 = probe_directory w names s1
      in new_events s s1 @ new_events s1 s2 @ new_events s2 (sample_files w s2) @
         [Printf ''\<newline>>> Scan complete. Sleeping 10 seconds...\<newline>'' [],
          Printf ''   (Press Ctrl+C to stop)\<newline>'' [],
          Sleep 10])"
proof -
  define s1 where "s1 = opened w s"
  define s2 where "s2 = probe_directory w names s1"
  define s3 where "s3 = sample_files w s2"
  have t1: "trace s1 = trace s @ new_events s s1"
    unfolding s1_def by (rule prefix_new_events) (simp add: opened_trace)
  have t2: "trace s2 = trace s1 @ new_events s1 s2"
    unfolding s2_def by (rule prefix_new_events [OF prefix_probe_directory])
  have t3: "trace s3 = trace s2 @ new_events s2 s3"
    unfolding s3_def by (rule prefix_new_events [OF prefix_sample_files])
  have r: "scan_iteration w s =
      syscall (Sleep 10) (printf ''   (Press Ctrl+C to stop)\<newline>'' []
           (printf ''\<newline>>> Scan complete. Sleeping 10 seconds...\<newline>'' [] s3))"
    by (simp only: scan_iteration_opened [OF assms] s1_def s2_def s3_def)
  have "trace (scan_iteration w s) = trace s3 @
        [Printf ''\<newline>>> Scan complete. Sleeping 10 seconds...\<newline>'' [],
         Printf ''   (Press Ctrl+C to stop)\<newline>'' [], Sleep 10]"
    unfolding r by simp
  then have "new_events s (scan_iteration w s) =
      new_events s s1 @ new_events s1 s2 @ new_events s2 s3 @
        [Printf ''\<newline>>> Scan complete. Sleeping 10 seconds...\<newline>'' [],
         Printf ''   (Press Ctrl+C to stop)\<newline>'' [], Sleep 10]"
    by (intro new_events_app) (simp only: t1 t2 t3 append_assoc)
  then show ?thesis
    by (simp only: Let_def s1_def s2_def s3_def)
qed

lemma scan_iteration_failed:
  assumes "sys_opendir w (clock s) ''/var/log'' = Inl e"
  shows "scan_iteration w s =
     syscall (Sleep 10)
       (fprintf_stderr ''ERROR: Failed to open /var/log: %s\<newline>'' [Str (strerror w e)]
          (opened w s))"
  using assms by (simp add: scan_iteration_def opened_def Let_def)

lemma prefix_scan_iteration: "prefix (trace s) (trace (scan_iteration w s))"
proof (cases "sys_opendir w (clock s) ''/var/log''")
  case (Inl e)
  then show ?thesis by (simp add: scan_iteration_failed opened_trace)
next
  case (Inr names)
  have "prefix (trace s) (trace (sample_files w (probe_directory w names (opened w s))))"
    by (rule prefix_order.trans [OF _ prefix_sample_files],
        rule prefix_order.trans [OF _ prefix_probe_directory]) (simp add: opened_trace)
  then show ?thesis
    by (auto simp: scan_iteration_opened [OF Inr] prefix_def)
qed

lemma prefix_main_loop: "prefix (trace s) (trace (main_loop w n s))"
proof (induction n arbitrary: s)
  case 0
  show ?case by simp
next
  case (Suc n)
  show ?case using prefix_order.trans [OF prefix_scan_iteration Suc.IH] by simp
qed

subsection \<open>Every event only reads\<close>

lemma ro_probe_entry: "list_all read_only (new_events s (probe_entry w d s))"
  by (simp add: probe_entry_events Let_def kind_line_def split: option.splits)

lemma ro_readdir_loop: "list_all read_only (new_events s (readdir_loop w names s))"
proof (induction names arbitrary: s)
  case Nil
  show ?case by (simp add: new_events_def)
next
  case (Cons d rest)
  show ?case
    by (cases "d = ''.'' \<or> d = ''..''")
       (simp_all only: readdir_loop_events_dot readdir_loop_events_entry list.pred_inject
          list_all_append read_only.simps Cons.IH ro_probe_entry simp_thms)
qed

lemma ro_sample_file: "list_all read_only (new_events s (sample_file w f s))"
  by (simp add: sample_file_events Let_def O_RDONLY_def)

lemma ro_sample_loop: "list_all read_only (new_events s (sample_loop w fs s))"
proof (induction fs arbitrary: s)
  case Nil
  show ?case by (simp add: new_events_def)
next
  case (Cons f rest)
  show ?case
    by (simp only: sample_loop_events_Cons list_all_append Cons.IH ro_sample_file simp_thms)
qed

lemma sample_files_events:
  "new_events s (sample_files w s) =
     (let s1 = (printf ''[3] Reading multiple log files...\<newline>'' [] s)\<lparr>files_read := 0\<rparr>;
          s2 = sample_loop w log_files s1
      in Printf ''[3] Reading multiple log files...\<newline>'' [] # new_events s1 s2 @
         [Printf ''    - Successfully read %d log files\<newline>'' [Num (sint (files_read s2))]])"
  by (rule new_events_app) (rule sample_files_trace)

lemma probe_directory_events:
  "new_events s (probe_directory w names s) =
     (let s1 = (printf ''[2] Reading directory contents and probing metadata...\<newline>'' []
                 (printf ''    - Successfully opened /var/log\<newline>'' [] s))\<lparr>count := 0\<rparr>
      in [Printf ''    - Successfully opened /var/log\<newline>'' [],
          Printf ''[2] Reading directory contents and probing metadata...\<newline>'' []] @
         new_events s1 (readdir_loop w names s1) @
         [Closedir,
          Printf ''    - Probed metadata for %d total entries\<newline>''
            [Num (sint (word_of_nat (length (nondot names)) :: c_int))]])"
  by (rule new_events_app) (rule probe_directory_trace)

lemma opened_events:
  "new_events s (opened w s) =
     [Printf ''\<newline>[Iteration %d - %s]\<newline>''
        [Num (sint (iteration s + 1)),
         Str (if iteration s + 1 = 1 then ''First scan'' else ''Periodic scan'')],
      Printf ''[1] Opening /var/log directory...\<newline>'' [],
      Opendir ''/var/log'' (sys_opendir w (clock s) ''/var/log'')]"
  by (rule new_events_app) (rule opened_trace)

lemma scan_iteration_failed_events:
  assumes "sys_opendir w (clock s) ''/var/log'' = Inl e"
  shows "new_events s (scan_iteration w s) =
     new_events s (opened w s) @
     [Fprintf_stderr ''ERROR: Failed to open /var/log: %s\<newline>'' [Str (strerror w e)],
      Sleep 10]"
  by (rule new_events_app) (simp add: scan_iteration_failed [OF assms] opened_trace opened_events)

lemma ro_scan_iteration: "list_all read_only (new_events s (scan_iteration w s))"
proof (cases "sys_opendir w (clock s) ''/var/log''")
  case (Inl e)
  show ?thesis by (simp add: scan_iteration_failed_events [OF Inl] opened_events)
next
  case (Inr names)
  show ?thesis
    by (simp add: scan_iteration_events [OF Inr] opened_events probe_directory_events
          sample_files_events Let_def ro_readdir_loop ro_sample_loop)
qed

lemma ro_main_loop:
  "list_all read_only (trace s) \<Longrightarrow> list_all read_only (trace (main_loop w n s))"
proof (induction n arbitrary: s)
  case 0
  then show ?case by simp
next
  case (Suc n)
  have "trace (scan_iteration w s) = trace s @ new_events s (scan_iteration w s)"
    by (rule prefix_new_events [OF prefix_scan_iteration])
  with Suc.prems have "list_all read_only (trace (scan_iteration w s))"
    by (simp add: ro_scan_iteration)
  then show ?case by (simp add: Suc.IH)
qed

subsection \<open>Which events each phase can add\<close>

lemma filter_none: "list_all Q xs \<Longrightarrow> (\<And>e. Q e \<Longrightarrow> \<not> P e) \<Longrightarrow> filter P xs = []"
  by (induction xs) auto

lemma map_filter_none:
  "list_all Q xs \<Longrightarrow> (\<And>e. Q e \<Longrightarrow> f e = None) \<Longrightarrow> List.map_filter f xs = []"
  by (induction xs) auto

lemma map_filter_append:
  "List.map_filter f (xs @ ys) = List.map_filter f xs @ List.map_filter f ys"
  by (simp add: List.map_filter_def)

lemma entry_event_kind_line: "entry_event (kind_line b)"
  by (simp add: kind_line_def)

lemma entry_events_probe_entry: "list_all entry_event (new_events s (probe_entry w d s))"
  by (simp add: probe_entry_events Let_def entry_event_kind_line split: option.splits)

lemma entry_events_readdir_loop: "list_all entry_event (new_events s (readdir_loop w names s))"
proof (induction names arbitrary: s)
  case Nil
  show ?case by (simp add: new_events_def)
next
  case (Cons d rest)
  show ?case
    by (cases "d = ''.'' \<or> d = ''..''")
       (simp_all only: readdir_loop_events_dot readdir_loop_events_entry list.pred_inject
          list_all_append entry_event.simps Cons.IH entry_events_probe_entry simp_thms)
qed

lemma sampling_events_sample_file: "list_all sampling_event (new_events s (sample_file w f s))"
  by (simp add: sample_file_events Let_def)

lemma sampling_events_sample_loop: "list_all sampling_event (new_events s (sample_loop w fs s))"
proof (induction fs arbitrary: s)
  case Nil
  show ?case by (simp add: new_events_def)
next
  case (Cons f rest)
  show ?case
    by (simp only: sample_loop_events_Cons list_all_append Cons.IH sampling_events_sample_file
          simp_thms)
qed

lemma sampling_events_sample_files: "list_all sampling_event (new_events s (sample_files w s))"
  by (simp add: sample_files_events Let_def sampling_events_sample_loop)

lemma sampling_event_not:
  assumes "sampling_event e"
  shows "\<not> is_probe e" "stat_result e = None" "stat_ok e = None" "entry_line e = None"
    "reported_total e = None"
  using assms by (cases e; auto)+

lemma entry_event_not:
  assumes "entry_event e"
  shows "\<not> file_event e" "reported_reads e = None" "open_result e = None"
    "reported_total e = None"
  using assms by (cases e; auto)+

lemma sample_files_none:
  "filter is_probe (new_events s (sample_files w s)) = []"
  "List.map_filter stat_result (new_events s (sample_files w s)) = []"
  "List.map_filter stat_ok (new_events s (sample_files w s)) = []"
  "List.map_filter entry_line (new_events s (sample_files w s)) = []"
  "List.map_filter reported_total (new_events s (sample_files w s)) = []"
  using sampling_events_sample_files [of s w]
  by (auto intro: filter_none map_filter_none dest: sampling_event_not)

lemma readdir_loop_none:
  "filter file_event (new_events s (readdir_loop w names s)) = []"
  "List.map_filter reported_reads (new_events s (readdir_loop w names s)) = []"
  "List.map_filter open_result (new_events s (readdir_loop w names s)) = []"
  "List.map_filter reported_total (new_events s (readdir_loop w names s)) = []"
  using entry_events_readdir_loop [of s w names]
  by (auto intro: filter_none map_filter_none dest: entry_event_not)

subsection \<open>The probes of the directory loop\<close>

lemma probes_follow_Cons:
  "probes_follow (p # ps) (Stat q None # rest) = (q = p \<and> probes_follow ps rest)"
  "probes_follow (p # ps) (Stat q (Some b) # Lstat q1 r1 # Access q2 amode r2 # rest) =
     (q = p \<and> q1 = p \<and> q2 = p \<and> amode = R_OK \<and> probes_follow ps rest)"
  by simp_all

lemma is_probe_kind_line: "\<not> is_probe (kind_line b)"
  by (simp add: kind_line_def)

lemma probes_probe_entry:
  "filter is_probe (new_events s (probe_entry w d s)) =
    (let path = snprintf 512 (''/var/log/'' @ d) in
     case sys_stat w (clock s) path of
       None \<Rightarrow> [Stat path None]
     | Some buf \<Rightarrow>
         [Stat path (Some buf),
          Lstat path (sys_lstat w (Suc (clock s)) path),
          Access path R_OK (sys_access w (Suc (Suc (clock s))) path R_OK)])"
  by (simp add: probe_entry_events Let_def is_probe_kind_line split: option.splits)

lemma probes_readdir_loop:
  "probes_follow (map (\<lambda>d. snprintf 512 (''/var/log/'' @ d)) (nondot names))
     (filter is_probe (new_events s (readdir_loop w names s)))"
proof (induction names arbitrary: s)
  case Nil
  show ?case by (simp add: new_events_def)
next
  case (Cons d rest)
  show ?case
  proof (cases "d = ''.'' \<or> d = ''..''")
    case True
    then show ?thesis
      using Cons.IH by (simp add: readdir_loop_events_dot del: readdir_loop.simps)
  next
    case False
    then show ?thesis
      using Cons.IH
      by (simp add: readdir_loop_events_entry probes_probe_entry Let_def
            del: readdir_loop.simps probes_follow.simps add: probes_follow_Cons
            split: option.splits)
  qed
qed

subsection \<open>The counter of the directory loop\<close>

lemma sint_count: "k < 2 ^ 31 \<Longrightarrow> sint (word_of_nat k :: c_int) = int k"
  by (simp add: signed_of_nat signed_take_bit_int_eq_self)

lemma reported_total_scan_iteration:
  assumes "sys_opendir w (clock s) ''/var/log'' = Inr names"
  shows "List.map_filter reported_total (new_events s (scan_iteration w s)) =
           [sint (word_of_nat (length (nondot names)) :: c_int)]"
  by (simp add: scan_iteration_events [OF assms] opened_events probe_directory_events
        sample_files_none readdir_loop_none Let_def map_filter_append)

lemma kind_line_none [simp]:
  "stat_result (kind_line b) = None" "entry_line (kind_line b) = None" "stat_ok (kind_line b) = None"
  by (simp_all add: kind_line_def)

lemma stat_result_probe_entry:
  "List.map_filter stat_result (new_events s (probe_entry w d s)) =
     [sys_stat w (clock s) (snprintf 512 (''/var/log/'' @ d))]"
  by (simp add: probe_entry_events Let_def split: option.splits)


lemma entry_line_probe_entry:
  "List.map_filter entry_line (new_events s (probe_entry w d s)) =
     (if sys_stat w (clock s) (snprintf 512 (''/var/log/'' @ d)) \<noteq> None \<and> sint (count s) < 5
      then [d] else [])"
  by (simp add: probe_entry_events Let_def split: option.splits)


subsection \<open>The answers of the concrete worlds\<close>

lemma dangling_opendir:
  "sys_opendir dangling_world t ''/var/log'' = Inr [''.'', ''..'', ''a'', ''b'', ''c'', ''d'', ''e'', ''f'']"
  by (simp add: dangling_world_def table_world_def)

lemma dangling_stat:
  "sys_stat dangling_world t p = (if p = ''/var/log/a'' then None else Some (regular 10))"
  "sys_lstat dangling_world t p = (if p = ''/var/log/a'' then Some (symlink 4) else Some (regular 10))"
  "sys_access dangling_world t p m = (if p = ''/var/log/a'' then - 1 else 0)"
  by (simp_all add: dangling_world_def table_world_def)

lemma small_world_simps:
  "sys_opendir small_world t ''/var/log'' = Inr [''.'', ''..'', ''a.log'', ''sub'']"
  "sys_stat small_world t p =
     (if p = ''/var/log/a.log'' then Some (regular 100)
      else if p = ''/var/log/sub'' then Some directory else None)"
  "sys_lstat small_world t p =
     (if p = ''/var/log/a.log'' then Some (regular 100)
      else if p = ''/var/log/sub'' then Some directory else None)"
  "sys_open small_world t p fl = (if p = ''/var/log/messages'' then 3 else - 1)"
  "sys_read small_world t p fd n = (if p = ''/var/log/messages'' then 50 else - 1)"
  by (simp_all add: small_world_def table_world_def)

lemma static_table_world: "static (table_world dir stat_of lstat_of read_of)"
  by (simp add: static_def table_world_def)

subsection \<open>The file events of the sample loop\<close>

lemma sampled_Cons:
  "sampled (f # fs) (Open path flags fd # rest) =
     (path = f \<and> flags = O_RDONLY \<and>
      (if 0 \<le> sint fd then
         (case rest of
            Read fd1 n bytes # Close fd2 # Printf fmt args # rest' \<Rightarrow>
              fd1 = fd \<and> n = 1024 \<and> fd2 = fd \<and>
              fmt = ''    - %s (%ld bytes read)\<newline>'' \<and>
              args = [Str f, Num (sint bytes)] \<and> sampled fs rest'
          | _ \<Rightarrow> False)
       else sampled fs rest))"
  by simp

lemma sampled_sample_loop:
  "sampled fs (filter file_event (new_events s (sample_loop w fs s)))"
proof (induction fs arbitrary: s)
  case Nil
  show ?case by (simp add: new_events_def)
next
  case (Cons f rest)
  show ?case
    using Cons.IH [of "sample_file w f s"]
    by (simp add: sample_loop_events_Cons sample_file_events Let_def sampled_Cons
          del: sample_loop.simps sampled.simps)
qed

lemma open_results_sample_loop:
  "length (List.map_filter open_result (new_events s (sample_loop w fs s))) = length fs \<and>
   files_read (sample_loop w fs s) =
     files_read s + of_nat (length (filter (\<lambda>fd. 0 \<le> sint fd)
       (List.map_filter open_result (new_events s (sample_loop w fs s)))))"
proof (induction fs arbitrary: s)
  case Nil
  show ?case by (simp add: new_events_def)
next
  case (Cons f rest)
  have fr: "files_read (sample_loop w (f # rest) s) =
      files_read (sample_loop w rest (sample_file w f s))"
    by simp
  show ?case
    using Cons.IH [of "sample_file w f s"]
    by (simp add: fr sample_loop_events_Cons sample_file_events Let_def map_filter_append
          del: sample_loop.simps)
qed

lemma file_events_sample_loop: "list_all file_event (new_events s (sample_loop w fs s))"
proof (induction fs arbitrary: s)
  case Nil
  show ?case by (simp add: new_events_def)
next
  case (Cons f rest)
  have "list_all file_event (new_events s (sample_file w f s))"
    by (simp add: sample_file_events Let_def)
  then show ?case
    by (simp only: sample_loop_events_Cons list_all_append Cons.IH simp_thms)
qed

lemma file_event_not_report: "file_event e \<Longrightarrow> reported_reads e = None"
  by (cases e) auto

lemma sint_files_read: "k \<le> 10 \<Longrightarrow> sint (word_of_nat k :: c_int) = int k"
  by (rule sint_count) simp

lemma file_events_scan_iteration:
  assumes "sys_opendir w (clock s) ''/var/log'' = Inr names"
  shows "\<exists>s1. filter file_event (new_events s (scan_iteration w s)) =
               filter file_event (new_events s1 (sample_loop w log_files s1)) \<and>
             List.map_filter open_result (new_events s (scan_iteration w s)) =
               List.map_filter open_result (new_events s1 (sample_loop w log_files s1)) \<and>
             List.map_filter reported_reads (new_events s (scan_iteration w s)) =
               [sint (files_read (sample_loop w log_files s1))] \<and>
             files_read s1 = 0"
proof -
  define s0 where "s0 = probe_directory w names (opened w s)"
  define s1 where "s1 = (printf ''[3] Reading multiple log files...\<newline>'' [] s0)\<lparr>files_read := 0\<rparr>"
  have none: "List.map_filter reported_reads (new_events s1 (sample_loop w log_files s1)) = []"
    using file_events_sample_loop [of s1 w log_files]
    by (rule map_filter_none) (rule file_event_not_report)
  have "filter file_event (new_events s (scan_iteration w s)) =
               filter file_event (new_events s1 (sample_loop w log_files s1))"
    by (simp add: scan_iteration_events [OF assms] opened_events probe_directory_events
          sample_files_events readdir_loop_none Let_def s0_def s1_def)
  moreover have "List.map_filter open_result (new_events s (scan_iteration w s)) =
               List.map_filter open_result (new_events s1 (sample_loop w log_files s1))"
    by (simp add: scan_iteration_events [OF assms] opened_events probe_directory_events
          sample_files_events readdir_loop_none Let_def map_filter_append s0_def s1_def)
  moreover have "List.map_filter reported_reads (new_events s (scan_iteration w s)) =
               [sint (files_read (sample_loop w log_files s1))]"
    using none
    by (simp add: scan_iteration_events [OF assms] opened_events probe_directory_events
          sample_files_events readdir_loop_none Let_def map_filter_append s0_def s1_def)
  moreover have "files_read s1 = 0" by (simp add: s1_def)
  ultimately show ?thesis by blast
qed

lemma sample_loop_events_Nil: "new_events s (sample_loop w [] s) = []"
  by (simp add: new_events_def)

subsection \<open>A static world answers alike at all times\<close>

lemma static_Suc:
  assumes "static w"
  shows "sys_stat w (Suc t) = sys_stat w t" "sys_lstat w (Suc t) = sys_lstat w t"
    "sys_access w (Suc t) = sys_access w t" "sys_open w (Suc t) = sys_open w t"
    "sys_read w (Suc t) = sys_read w t" "sys_opendir w (Suc t) = sys_opendir w t"
  using assms by (simp_all add: static_def)

lemma static_clock:
  assumes "static w"
  shows "sys_stat w (clock s) = sys_stat w (clock s')" "sys_lstat w (clock s) = sys_lstat w (clock s')"
    "sys_access w (clock s) = sys_access w (clock s')" "sys_open w (clock s) = sys_open w (clock s')"
    "sys_read w (clock s) = sys_read w (clock s')" "sys_opendir w (clock s) = sys_opendir w (clock s')"
  using assms by (simp_all add: static_def)

lemma static_probe_entry:
  assumes "static w" and "count s = count s'"
  shows "new_events s (probe_entry w d s) = new_events s' (probe_entry w d s')"
  by (simp add: probe_entry_events static_Suc [OF assms(1)] assms(2) Let_def
        static_clock [OF assms(1), of s s'] cong: option.case_cong if_cong)

lemma static_readdir_loop:
  assumes "static w" and "count s = count s'"
  shows "new_events s (readdir_loop w names s) = new_events s' (readdir_loop w names s')"
  using assms(2)
proof (induction names arbitrary: s s')
  case Nil
  show ?case by (simp add: new_events_def)
next
  case (Cons d rest)
  show ?case
  proof (cases "d = ''.'' \<or> d = ''..''")
    case True
    have "new_events (syscall (Readdir (Some d)) s) (readdir_loop w rest (syscall (Readdir (Some d)) s)) =
        new_events (syscall (Readdir (Some d)) s') (readdir_loop w rest (syscall (Readdir (Some d)) s'))"
      by (rule Cons.IH) (simp add: Cons.prems)
    then show ?thesis
      by (simp only: readdir_loop_events_dot [OF True])
  next
    case False
    have c: "count (syscall (Readdir (Some d)) s) = count (syscall (Readdir (Some d)) s')"
      by (simp add: Cons.prems)
    have "new_events (probe_entry w d (syscall (Readdir (Some d)) s))
            (readdir_loop w rest (probe_entry w d (syscall (Readdir (Some d)) s))) =
          new_events (probe_entry w d (syscall (Readdir (Some d)) s'))
            (readdir_loop w rest (probe_entry w d (syscall (Readdir (Some d)) s')))"
      by (rule Cons.IH) (simp add: Cons.prems)
    then show ?thesis
      by (simp only: readdir_loop_events_entry [OF False] static_probe_entry [OF assms(1) c])
  qed
qed

lemma static_sample_file:
  assumes "static w"
  shows "new_events s (sample_file w f s) = new_events s' (sample_file w f s')"
    and "files_read s = files_read s' \<Longrightarrow>
         files_read (sample_file w f s) = files_read (sample_file w f s')"
  by (simp_all add: sample_file_events static_Suc [OF assms] static_clock [OF assms, of s s']
        Let_def cong: if_cong)

lemma static_sample_loop:
  assumes "static w" and "files_read s = files_read s'"
  shows "new_events s (sample_loop w fs s) = new_events s' (sample_loop w fs s') \<and>
         files_read (sample_loop w fs s) = files_read (sample_loop w fs s')"
  using assms(2)
proof (induction fs arbitrary: s s')
  case Nil
  then show ?case by (simp add: new_events_def)
next
  case (Cons f rest)
  have fr: "files_read (sample_loop w (f # rest) s) =
      files_read (sample_loop w rest (sample_file w f s))" for s
    by simp
  show ?case
    using Cons.IH [OF static_sample_file(2) [OF assms(1) Cons.prems, of f]]
    by (simp only: sample_loop_events_Cons fr static_sample_file(1) [OF assms(1), of s f s'])
qed

lemma static_sample_files:
  assumes "static w"
  shows "new_events s (sample_files w s) = new_events s' (sample_files w s')"
proof -
  define s1 where "s1 = (printf ''[3] Reading multiple log files...\<newline>'' [] s)\<lparr>files_read := 0\<rparr>"
  define s1' where "s1' = (printf ''[3] Reading multiple log files...\<newline>'' [] s')\<lparr>files_read := 0\<rparr>"
  have "files_read s1 = files_read s1'" by (simp add: s1_def s1'_def)
  from static_sample_loop [OF assms this, of log_files] show ?thesis
    by (simp add: sample_files_events Let_def s1_def s1'_def)
qed

lemma static_probe_directory:
  assumes "static w"
  shows "new_events s (probe_directory w names s) = new_events s' (probe_directory w names s')"
proof -
  define s1 where "s1 = (printf ''[2] Reading directory contents and probing metadata...\<newline>'' []
                 (printf ''    - Successfully opened /var/log\<newline>'' [] s))\<lparr>count := 0\<rparr>"
  define s1' where "s1' = (printf ''[2] Reading directory contents and probing metadata...\<newline>'' []
                 (printf ''    - Successfully opened /var/log\<newline>'' [] s'))\<lparr>count := 0\<rparr>"
  have "count s1 = count s1'" by (simp add: s1_def s1'_def)
  from static_readdir_loop [OF assms this, of names] show ?thesis
    by (simp add: probe_directory_events Let_def s1_def s1'_def)
qed

lemma static_scan_iteration:
  assumes "static w"
  shows "tl (new_events s (scan_iteration w s)) = tl (new_events s' (scan_iteration w s'))"
    and "iteration s = iteration s' \<Longrightarrow>
         new_events s (scan_iteration w s) = new_events s' (scan_iteration w s')"
proof -
  have o: "sys_opendir w (clock s') ''/var/log'' = sys_opendir w (clock s) ''/var/log''"
    using static_clock(6) [OF assms, of s' s] by simp
  have "tl (new_events s (scan_iteration w s)) = tl (new_events s' (scan_iteration w s')) \<and>
    (iteration s = iteration s' \<longrightarrow>
       new_events s (scan_iteration w s) = new_events s' (scan_iteration w s'))"
  proof (cases "sys_opendir w (clock s) ''/var/log''")
    case (Inl e)
    with o have Inl': "sys_opendir w (clock s') ''/var/log'' = Inl e" by simp
    show ?thesis
      by (simp add: scan_iteration_failed_events [OF Inl] scan_iteration_failed_events [OF Inl']
            opened_events Inl Inl')
  next
    case (Inr names)
    with o have Inr': "sys_opendir w (clock s') ''/var/log'' = Inr names" by simp
    have p: "new_events (opened w s) (probe_directory w names (opened w s)) =
        new_events (opened w s') (probe_directory w names (opened w s'))"
      by (rule static_probe_directory [OF assms])
    have f: "new_events (probe_directory w names (opened w s))
          (sample_files w (probe_directory w names (opened w s))) =
        new_events (probe_directory w names (opened w s'))
          (sample_files w (probe_directory w names (opened w s')))"
      by (rule static_sample_files [OF assms])
    show ?thesis
      by (simp add: scan_iteration_events [OF Inr] scan_iteration_events [OF Inr']
            opened_events Inr Inr' Let_def p f)
  qed
  then show "tl (new_events s (scan_iteration w s)) = tl (new_events s' (scan_iteration w s'))"
    and "iteration s = iteration s' \<Longrightarrow>
         new_events s (scan_iteration w s) = new_events s' (scan_iteration w s')"
    by simp_all
qed

lemma scan_iteration_first_line:
  "new_events s (scan_iteration w s) =
     Printf ''\<newline>[Iteration %d - %s]\<newline>''
       [Num (sint (iteration s + 1)),
        Str (if iteration s + 1 = 1 then ''First scan'' else ''Periodic scan'')] #
     tl (new_events s (scan_iteration w s))"
proof (cases "sys_opendir w (clock s) ''/var/log''")
  case (Inl e)
  show ?thesis
    by (simp add: scan_iteration_failed_events [OF Inl] opened_events)
next
  case (Inr names)
  show ?thesis
    by (simp add: scan_iteration_events [OF Inr] opened_events Let_def)
qed

subsection \<open>Nothing is printed for an entry that cannot be probed\<close>

lemma printed_subseq_readdir_loop:
  "length (List.map_filter stat_result (new_events s (readdir_loop w names s))) =
     length (nondot names) \<and>
   subseq (List.map_filter entry_line (new_events s (readdir_loop w names s)))
     (map fst (filter (\<lambda>(d, r). r \<noteq> None)
        (zip (nondot names)
           (List.map_filter stat_result (new_events s (readdir_loop w names s))))))"
proof (induction names arbitrary: s)
  case Nil
  show ?case by (simp add: new_events_def)
next
  case (Cons d rest)
  show ?case
  proof (cases "d = ''.'' \<or> d = ''..''")
    case True
    then show ?thesis
      using Cons.IH [of "syscall (Readdir (Some d)) s"]
      by (simp add: readdir_loop_events_dot del: readdir_loop.simps)
  next
    case False
    define s1 where "s1 = syscall (Readdir (Some d)) s"
    define s2 where "s2 = probe_entry w d s1"
    have ev: "new_events s (readdir_loop w (d # rest) s) =
        Readdir (Some d) # new_events s1 s2 @ new_events s2 (readdir_loop w rest s2)"
      unfolding s1_def s2_def by (rule readdir_loop_events_entry [OF False])
    show ?thesis
      using Cons.IH [of s2] False
      by (auto simp: ev s2_def map_filter_append stat_result_probe_entry entry_line_probe_entry
            simp del: readdir_loop.simps)
  qed
qed

lemma printed_subseq_scan_iteration:
  assumes "sys_opendir w (clock s) ''/var/log'' = Inr names"
  shows "length (List.map_filter stat_result (new_events s (scan_iteration w s))) =
           length (nondot names) \<and>
         subseq (List.map_filter entry_line (new_events s (scan_iteration w s)))
           (map fst (filter (\<lambda>(d, r). r \<noteq> None)
              (zip (nondot names)
                 (List.map_filter stat_result (new_events s (scan_iteration w s))))))"
proof -
  define s1 where "s1 = (printf ''[2] Reading directory contents and probing metadata...\<newline>'' []
      (printf ''    - Successfully opened /var/log\<newline>'' [] (opened w s)))\<lparr>count := 0\<rparr>"
  define evs where "evs = new_events s1 (readdir_loop w names s1)"
  have sr: "List.map_filter stat_result (new_events s (scan_iteration w s)) =
      List.map_filter stat_result evs"
    by (simp add: scan_iteration_events [OF assms] opened_events probe_directory_events
          sample_files_none Let_def map_filter_append s1_def evs_def)
  have el: "List.map_filter entry_line (new_events s (scan_iteration w s)) =
      List.map_filter entry_line evs"
    by (simp add: scan_iteration_events [OF assms] opened_events probe_directory_events
          sample_files_none Let_def map_filter_append s1_def evs_def)
  show ?thesis
    using printed_subseq_readdir_loop [of s1 w names]
    by (simp only: sr el evs_def)
qed

subsection \<open>The third phase holds the file events and nothing else\<close>

lemma filter_all: "list_all P xs \<Longrightarrow> filter P xs = xs"
  by (induction xs) auto

lemma not_on_stderr:
  "entry_event e \<Longrightarrow> \<not> on_stderr e" "sampling_event e \<Longrightarrow> \<not> on_stderr e"
  by (cases e; simp)+

lemma no_stderr_scan_iteration:
  assumes "sys_opendir w (clock s) ''/var/log'' = Inr names"
  shows "filter on_stderr (new_events s (scan_iteration w s)) = []"
proof -
  have a: "filter on_stderr (new_events s' (readdir_loop w names s')) = []" for s'
    using entry_events_readdir_loop [of s' w names]
    by (rule filter_none) (rule not_on_stderr)
  have b: "filter on_stderr (new_events s' (sample_files w s')) = []" for s'
    using sampling_events_sample_files [of s' w]
    by (rule filter_none) (rule not_on_stderr)
  show ?thesis
    by (simp add: scan_iteration_events [OF assms] opened_events probe_directory_events
          Let_def a b assms)
qed

lemma sampling_scan_iteration:
  assumes "sys_opendir w (clock s) ''/var/log'' = Inr names"
  shows "\<exists>pre. new_events s (scan_iteration w s) =
           pre @
           Printf ''[3] Reading multiple log files...\<newline>'' [] #
           filter file_event (new_events s (scan_iteration w s)) @
           [Printf ''    - Successfully read %d log files\<newline>''
              [Num (int (length (filter (\<lambda>fd. 0 \<le> sint fd)
                 (List.map_filter open_result (new_events s (scan_iteration w s))))))],
            Printf ''\<newline>>> Scan complete. Sleeping 10 seconds...\<newline>'' [],
            Printf ''   (Press Ctrl+C to stop)\<newline>'' [],
            Sleep 10]"
proof -
  define s0 where "s0 = probe_directory w names (opened w s)"
  define s1 where "s1 = (printf ''[3] Reading multiple log files...\<newline>'' [] s0)\<lparr>files_read := 0\<rparr>"
  define L where "L = new_events s1 (sample_loop w log_files s1)"
  define fds where "fds = List.map_filter open_result L"
  have all: "filter file_event L = L"
    unfolding L_def by (rule filter_all [OF file_events_sample_loop])
  have fe: "filter file_event (new_events s (scan_iteration w s)) = L"
    by (simp add: scan_iteration_events [OF assms] opened_events probe_directory_events
          sample_files_events readdir_loop_none Let_def all flip: s0_def s1_def L_def)
  have op: "List.map_filter open_result (new_events s (scan_iteration w s)) = fds"
    by (simp add: scan_iteration_events [OF assms] opened_events probe_directory_events
          sample_files_events readdir_loop_none Let_def map_filter_append fds_def
          flip: s0_def s1_def L_def)
  have len: "length fds = 10"
    using open_results_sample_loop [of s1 w log_files]
    by (simp add: fds_def L_def log_files_def)
  have "length (filter (\<lambda>fd. 0 \<le> sint fd) fds) \<le> 10"
    using length_filter_le [of "\<lambda>fd. 0 \<le> sint fd" fds] len by simp
  moreover have "files_read s1 = 0" by (simp add: s1_def)
  ultimately have n: "sint (files_read (sample_loop w log_files s1)) =
      int (length (filter (\<lambda>fd. 0 \<le> sint fd) fds))"
    using open_results_sample_loop [of s1 w log_files]
    by (simp add: fds_def L_def sint_files_read)
  have "new_events s (scan_iteration w s) =
      (new_events s (opened w s) @ new_events (opened w s) s0) @
      Printf ''[3] Reading multiple log files...\<newline>'' [] # L @
      [Printf ''    - Successfully read %d log files\<newline>''
         [Num (int (length (filter (\<lambda>fd. 0 \<le> sint fd) fds)))],
       Printf ''\<newline>>> Scan complete. Sleeping 10 seconds...\<newline>'' [],
       Printf ''   (Press Ctrl+C to stop)\<newline>'' [],
       Sleep 10]"
    by (simp add: scan_iteration_events [OF assms] sample_files_events Let_def n
          flip: s0_def s1_def L_def)
  then show ?thesis
    unfolding fe op by blast
qed

section \<open>Properties of the scanner\<close>

text \<open>
  C1. Every event of an iteration, from any state and in any world, leaves the file system
  as it is, and so does every event of the whole run, whatever the number of iterations:
  the only \<^verbatim>\<open>open\<close> calls ask for \<^verbatim>\<open>O_RDONLY\<close>, and nothing else the program calls
  can write, create, delete or modify a file system object.
\<close>

theorem scanner_only_reads:
  "list_all read_only (new_events s (scan_iteration w s)) \<and>
   list_all read_only (trace (main w st0 n))"
  by (simp add: ro_scan_iteration main_def ro_main_loop banner_def Let_def)

text \<open>
  C2. The line of an entry is not always computed from what \<^verbatim>\<open>stat\<close> reported: \<^verbatim>\<open>lstat\<close> is
  given the same buffer and overwrites it before lines 74 to 80 read it. For \<^verbatim>\<open>latest\<close>, a
  symbolic link to a directory, \<^verbatim>\<open>stat\<close> reports a directory and the program prints
  \<^verbatim>\<open>(other)\<close>. The whole first iteration in that world:
\<close>

theorem symlink_entry_is_classified_from_lstat:
  "new_events start (scan_iteration symlink_world start) =
     [Printf ''\<newline>[Iteration %d - %s]\<newline>'' [Num 1, Str ''First scan''],
      Printf ''[1] Opening /var/log directory...\<newline>'' [],
      Opendir ''/var/log'' (Inr [''.'', ''..'', ''latest'']),
      Printf ''    - Successfully opened /var/log\<newline>'' [],
      Printf ''[2] Reading directory contents and probing metadata...\<newline>'' [],
      Readdir (Some ''.''),
      Readdir (Some ''..''),
      Readdir (Some ''latest''),
      Stat ''/var/log/latest'' (Some directory),
      Lstat ''/var/log/latest'' (Some (symlink 7)),
      Access ''/var/log/latest'' R_OK 0,
      Printf ''    - %s '' [Str ''latest''],
      Printf ''(other)\<newline>'' [],
      Readdir None,
      Closedir,
      Printf ''    - Probed metadata for %d total entries\<newline>'' [Num 1],
      Printf ''[3] Reading multiple log files...\<newline>'' [],
      Open ''/var/log/messages'' O_RDONLY (- 1),
      Open ''/var/log/secure'' O_RDONLY (- 1),
      Open ''/var/log/cron'' O_RDONLY (- 1),
      Open ''/var/log/maillog'' O_RDONLY (- 1),
      Open ''/var/log/boot.log'' O_RDONLY (- 1),
      Open ''/var/log/dmesg'' O_RDONLY (- 1),
      Open ''/var/log/audit/audit.log'' O_RDONLY (- 1),
      Open ''/var/log/yum.log'' O_RDONLY (- 1),
      Open ''/var/log/spooler'' O_RDONLY (- 1),
      Open ''/var/log/tuned/tuned.log'' O_RDONLY (- 1),
      Printf ''    - Successfully read %d log files\<newline>'' [Num 0],
      Printf ''\<newline>>> Scan complete. Sleeping 10 seconds...\<newline>'' [],
      Printf ''   (Press Ctrl+C to stop)\<newline>'' [],
      Sleep 10]"
  by (simp add: new_events_def start_def scan_iteration_def probe_directory_def sample_files_def
        log_files_def probe_entry_def sample_file_def print_entry_def snprintf_def Let_def
        symlink_world_def table_world_def directory_def symlink_def
        S_ISDIR_def S_ISREG_def S_IFMT_def S_IFDIR_def S_IFREG_def S_IFLNK_def)

text \<open>
  C3, as the code has it. In an iteration that opened the directory, the probes are, for
  each entry other than \<^verbatim>\<open>.\<close> and \<^verbatim>\<open>..\<close> in the order of the stream, on the path of that
  entry: \<^verbatim>\<open>stat\<close> first; when it succeeded, \<^verbatim>\<open>lstat\<close> and then \<^verbatim>\<open>access\<close> with \<^verbatim>\<open>R_OK\<close>; when
  it failed, no other probe. There is no probe besides these.
\<close>

theorem probes_in_order_after_stat:
  assumes "sys_opendir w (clock s) ''/var/log'' = Inr names"
  shows "probes_follow (map (\<lambda>d. snprintf 512 (''/var/log/'' @ d)) (nondot names))
           (filter is_probe (new_events s (scan_iteration w s)))"
  using probes_readdir_loop
  by (simp add: scan_iteration_events [OF assms] opened_events probe_directory_events
        sample_files_none Let_def assms)

text \<open>The two entries of the small world.\<close>

theorem probes_in_order_after_stat_witness:
  "probes_follow [''/var/log/a.log'', ''/var/log/sub'']
     (filter is_probe (new_events start (scan_iteration small_world start)))"
proof -
  have h: "sys_opendir small_world (clock start) ''/var/log'' = Inr [''.'', ''..'', ''a.log'', ''sub'']"
    by (simp add: small_world_def table_world_def)
  show ?thesis
    using probes_in_order_after_stat [OF h] by (simp add: snprintf_def)
qed

text \<open>
  C3, as it is stated, fails on an entry whose \<^verbatim>\<open>stat\<close> fails: for the dangling link \<^verbatim>\<open>a\<close>
  the failed \<^verbatim>\<open>stat\<close> is the only probe, neither \<^verbatim>\<open>lstat\<close> nor \<^verbatim>\<open>access\<close> is attempted on
  it. All the probes of that iteration:
\<close>

theorem failed_stat_is_the_only_probe:
  "filter is_probe (new_events start (scan_iteration dangling_world start)) =
     [Stat ''/var/log/a'' None,
      Stat ''/var/log/b'' (Some (regular 10)), Lstat ''/var/log/b'' (Some (regular 10)),
      Access ''/var/log/b'' R_OK 0,
      Stat ''/var/log/c'' (Some (regular 10)), Lstat ''/var/log/c'' (Some (regular 10)),
      Access ''/var/log/c'' R_OK 0,
      Stat ''/var/log/d'' (Some (regular 10)), Lstat ''/var/log/d'' (Some (regular 10)),
      Access ''/var/log/d'' R_OK 0,
      Stat ''/var/log/e'' (Some (regular 10)), Lstat ''/var/log/e'' (Some (regular 10)),
      Access ''/var/log/e'' R_OK 0,
      Stat ''/var/log/f'' (Some (regular 10)), Lstat ''/var/log/f'' (Some (regular 10)),
      Access ''/var/log/f'' R_OK 0]"
  by (simp add: scan_iteration_events [OF dangling_opendir] opened_events probe_directory_events
        sample_files_none Let_def readdir_loop_events_dot readdir_loop_events_entry
        readdir_loop_events_Nil
        new_events_def [of _ "syscall _ _"] probes_probe_entry dangling_stat snprintf_def
        del: readdir_loop.simps)

text \<open>
  C4. When \<^verbatim>\<open>opendir\<close> fails, the iteration is exactly: the counter advances, the two
  header lines, the failed call, the error line on the standard error stream with the
  message of \<^verbatim>\<open>errno\<close>, and the sleep of 10 seconds. No directory entry is read or probed,
  no sample file is opened, \<^verbatim>\<open>count\<close>, \<^verbatim>\<open>st\<close> and \<^verbatim>\<open>files_read\<close> keep their values, and
  the loop goes on with the next iteration from that state.
\<close>

theorem opendir_failure_is_not_fatal:
  assumes "sys_opendir w (clock s) ''/var/log'' = Inl e"
  shows "scan_iteration w s =
      s\<lparr>iteration := iteration s + 1, clock := clock s + 2,
        trace := trace s @
          [Printf ''\<newline>[Iteration %d - %s]\<newline>''
             [Num (sint (iteration s + 1)),
              Str (if iteration s + 1 = 1 then ''First scan'' else ''Periodic scan'')],
           Printf ''[1] Opening /var/log directory...\<newline>'' [],
           Opendir ''/var/log'' (Inl e),
           Fprintf_stderr ''ERROR: Failed to open /var/log: %s\<newline>'' [Str (strerror w e)],
           Sleep 10]\<rparr>
    \<and> main_loop w (Suc n) s = main_loop w n (scan_iteration w s)"
  using assms
  by (simp add: scan_iteration_def Let_def emit_def syscall_def printf_def fprintf_stderr_def)

text \<open>Two iterations on a missing \<^verbatim>\<open>/var/log\<close>.\<close>

theorem opendir_failure_is_not_fatal_witness:
  "trace (main_loop missing_world 2 start) =
     [Printf ''\<newline>[Iteration %d - %s]\<newline>'' [Num 1, Str ''First scan''],
      Printf ''[1] Opening /var/log directory...\<newline>'' [],
      Opendir ''/var/log'' (Inl 2),
      Fprintf_stderr ''ERROR: Failed to open /var/log: %s\<newline>''
        [Str ''No such file or directory''],
      Sleep 10,
      Printf ''\<newline>[Iteration %d - %s]\<newline>'' [Num 2, Str ''Periodic scan''],
      Printf ''[1] Opening /var/log directory...\<newline>'' [],
      Opendir ''/var/log'' (Inl 2),
      Fprintf_stderr ''ERROR: Failed to open /var/log: %s\<newline>''
        [Str ''No such file or directory''],
      Sleep 10]"
proof -
  have h: "sys_opendir missing_world (clock s) ''/var/log'' = Inl 2" for s :: proc
    by (simp add: missing_world_def table_world_def)
  have str: "strerror missing_world 2 = ''No such file or directory''"
    by (simp add: missing_world_def table_world_def)
  have two: "(2::nat) = Suc (Suc 0)" by simp
  show ?thesis
    unfolding two
    using opendir_failure_is_not_fatal [OF h, of start 1]
      opendir_failure_is_not_fatal [OF h, of "scan_iteration missing_world start" 0]
    by (simp add: start_def str)
qed

text \<open>
  C5. Each pass of the loop body adds exactly one to \<^verbatim>\<open>count\<close>, whatever \<^verbatim>\<open>stat\<close> returns,
  and when \<^verbatim>\<open>stat\<close> fails that call is the only event of the pass: nothing is printed for
  the entry. An iteration that opened the directory reports one total, the number of
  entries other than \<^verbatim>\<open>.\<close> and \<^verbatim>\<open>..\<close> as the 32-bit counter holds it, which is that number
  itself below \<open>2 ^ 31\<close> entries, whatever the probes answered. There is one \<^verbatim>\<open>stat\<close> per
  such entry, and the names printed are, in order, among the names of the entries whose
  \<^verbatim>\<open>stat\<close> succeeded: an entry whose probe failed is counted and left out of the printed
  lines.
\<close>

theorem every_entry_is_counted_once:
  assumes "sys_opendir w (clock s) ''/var/log'' = Inr names"
  shows "let evs = new_events s (scan_iteration w s);
             results = List.map_filter stat_result evs;
             path = snprintf 512 (''/var/log/'' @ d)
         in count (probe_entry w d s') = count s' + 1 \<and>
            (sys_stat w (clock s') path = None \<longrightarrow>
               new_events s' (probe_entry w d s') = [Stat path None]) \<and>
            List.map_filter reported_total evs =
              [sint (word_of_nat (length (nondot names)) :: c_int)] \<and>
            (length (nondot names) < 2 ^ 31 \<longrightarrow>
               List.map_filter reported_total evs = [int (length (nondot names))]) \<and>
            length results = length (nondot names) \<and>
            subseq (List.map_filter entry_line evs)
              (map fst (filter (\<lambda>(d, r). r \<noteq> None) (zip (nondot names) results)))"
  using printed_subseq_scan_iteration [OF assms]
  by (simp add: reported_total_scan_iteration [OF assms] sint_count probe_entry_events Let_def)

text \<open>
  Six entries, \<^verbatim>\<open>a\<close> with a failing \<^verbatim>\<open>stat\<close>: the total is 6, the pass for \<^verbatim>\<open>a\<close> is the failed
  call alone, and no printed name is \<^verbatim>\<open>a\<close>.
\<close>

theorem every_entry_is_counted_once_witness:
  "List.map_filter reported_total (new_events start (scan_iteration dangling_world start)) = [6] \<and>
   new_events start (probe_entry dangling_world ''a'' start) = [Stat ''/var/log/a'' None] \<and>
   count (probe_entry dangling_world ''a'' start) = 1 \<and>
   subseq (List.map_filter entry_line (new_events start (scan_iteration dangling_world start)))
     [''b'', ''c'', ''d'', ''e'', ''f'']"
proof -
  have h: "sys_opendir dangling_world (clock start) ''/var/log'' =
      Inr [''.'', ''..'', ''a'', ''b'', ''c'', ''d'', ''e'', ''f'']"
    by (rule dangling_opendir)
  have r: "List.map_filter stat_result (new_events start (scan_iteration dangling_world start)) =
      [None, Some (regular 10), Some (regular 10), Some (regular 10), Some (regular 10),
       Some (regular 10)]"
    by (simp add: scan_iteration_events [OF h] opened_events probe_directory_events
        sample_files_none Let_def readdir_loop_events_dot readdir_loop_events_entry
        readdir_loop_events_Nil map_filter_append
        new_events_def [of _ "syscall _ _"] stat_result_probe_entry
        dangling_stat snprintf_def
        del: readdir_loop.simps)
  have c: "count start = 0" by (simp add: start_def)
  show ?thesis
    using every_entry_is_counted_once [OF h, of "''a''" start]
    by (simp add: Let_def r c dangling_stat snprintf_def)
qed




text \<open>
  C7, as the code has it. In an iteration that opened the directory, \<^verbatim>\<open>open\<close> is called
  ten times; the file events are those of the ten paths of \<^verbatim>\<open>log_files\<close> in list order:
  for each an \<^verbatim>\<open>open\<close> with \<^verbatim>\<open>O_RDONLY\<close>, then nothing when it failed, whatever happened to
  the paths before, and when it succeeded one \<^verbatim>\<open>read\<close> of 1024 bytes, the \<^verbatim>\<open>close\<close> and the
  line with what \<^verbatim>\<open>read\<close> returned. One count is reported, the number of \<^verbatim>\<open>open\<close> calls
  that succeeded. A failed \<^verbatim>\<open>open\<close> is skipped silently: nothing is written to the standard
  error stream, and from the line that announces the third phase to the end of the
  iteration the events are these file events, the reported count, the two closing lines
  and the sleep, with nothing in between.
\<close>

theorem sample_files_are_all_attempted:
  assumes "sys_opendir w (clock s) ''/var/log'' = Inr names"
  shows "let evs = new_events s (scan_iteration w s);
             fds = List.map_filter open_result evs
         in length log_files = 10 \<and> length fds = 10 \<and>
            sampled log_files (filter file_event evs) \<and>
            List.map_filter reported_reads evs = [int (length (filter (\<lambda>fd. 0 \<le> sint fd) fds))] \<and>
            filter on_stderr evs = [] \<and>
            (\<exists>pre. evs =
               pre @
               Printf ''[3] Reading multiple log files...\<newline>'' [] #
               filter file_event evs @
               [Printf ''    - Successfully read %d log files\<newline>''
                  [Num (int (length (filter (\<lambda>fd. 0 \<le> sint fd) fds)))],
                Printf ''\<newline>>> Scan complete. Sleeping 10 seconds...\<newline>'' [],
                Printf ''   (Press Ctrl+C to stop)\<newline>'' [],
                Sleep 10])"
proof -
  from file_events_scan_iteration [OF assms] obtain s1 where
    fe: "filter file_event (new_events s (scan_iteration w s)) =
               filter file_event (new_events s1 (sample_loop w log_files s1))" and
    op: "List.map_filter open_result (new_events s (scan_iteration w s)) =
               List.map_filter open_result (new_events s1 (sample_loop w log_files s1))" and
    rr: "List.map_filter reported_reads (new_events s (scan_iteration w s)) =
               [sint (files_read (sample_loop w log_files s1))]" and
    z: "files_read s1 = 0"
    by blast
  define fds where "fds = List.map_filter open_result (new_events s1 (sample_loop w log_files s1))"
  have ten: "length log_files = 10" by (simp add: log_files_def)
  have len: "length fds = 10"
    using open_results_sample_loop [of s1 w log_files] ten by (simp add: fds_def)
  have "length (filter (\<lambda>fd. 0 \<le> sint fd) fds) \<le> 10"
    using length_filter_le [of "\<lambda>fd. 0 \<le> sint fd" fds] len by simp
  then have "sint (files_read (sample_loop w log_files s1)) =
      int (length (filter (\<lambda>fd. 0 \<le> sint fd) fds))"
    using open_results_sample_loop [of s1 w log_files] z
    by (simp add: fds_def sint_files_read)
  then have first: "length log_files = 10 \<and>
      length (List.map_filter open_result (new_events s (scan_iteration w s))) = 10 \<and>
      sampled log_files (filter file_event (new_events s (scan_iteration w s))) \<and>
      List.map_filter reported_reads (new_events s (scan_iteration w s)) =
        [int (length (filter (\<lambda>fd. 0 \<le> sint fd)
           (List.map_filter open_result (new_events s (scan_iteration w s)))))]"
    using sampled_sample_loop [of log_files s1 w] ten len
    by (simp only: fe op rr fds_def)
  show ?thesis
    unfolding Let_def
    using first no_stderr_scan_iteration [OF assms] sampling_scan_iteration [OF assms]
    by blast
qed

text \<open>The small world: of the ten files only \<^verbatim>\<open>/var/log/messages\<close> opens.\<close>

theorem sample_files_are_all_attempted_witness:
  "sampled log_files (filter file_event (new_events start (scan_iteration small_world start))) \<and>
   List.map_filter open_result (new_events start (scan_iteration small_world start)) =
     [3, - 1, - 1, - 1, - 1, - 1, - 1, - 1, - 1, - 1] \<and>
   List.map_filter reported_reads (new_events start (scan_iteration small_world start)) = [1] \<and>
   filter on_stderr (new_events start (scan_iteration small_world start)) = []"
proof -
  have h: "sys_opendir small_world (clock start) ''/var/log'' = Inr [''.'', ''..'', ''a.log'', ''sub'']"
    by (rule small_world_simps)
  have "List.map_filter open_result (new_events start (scan_iteration small_world start)) =
     [3, - 1, - 1, - 1, - 1, - 1, - 1, - 1, - 1, - 1]"
    by (simp add: scan_iteration_events [OF h] opened_events probe_directory_events
          sample_files_events readdir_loop_none Let_def map_filter_append log_files_def
          sample_loop_events_Cons sample_loop_events_Nil sample_file_events small_world_simps
          del: sample_loop.simps readdir_loop.simps)
  then show ?thesis
    using sample_files_are_all_attempted [OF h] by (simp add: Let_def)
qed

text \<open>
  C7, as it is stated, fails in an iteration whose \<^verbatim>\<open>opendir\<close> failed: line 46 continues
  with the next iteration, no sample file is attempted and no count is reported.
\<close>

theorem no_sample_file_without_directory:
  "filter file_event (new_events start (scan_iteration missing_world start)) = [] \<and>
   List.map_filter reported_reads (new_events start (scan_iteration missing_world start)) = []"
proof -
  have h: "sys_opendir missing_world (clock start) ''/var/log'' = Inl 2"
    by (simp add: missing_world_def table_world_def)
  show ?thesis
    by (simp add: scan_iteration_failed_events [OF h] opened_events)
qed

text \<open>
  C8. In a static world all iterations add the same events but for their first line, which
  carries the iteration counter: the iteration that follows one, and the iteration from any
  other state \<open>s'\<close>, whatever its \<^verbatim>\<open>count\<close>, \<^verbatim>\<open>st\<close>, \<^verbatim>\<open>files_read\<close>, clock and trace.
  With the same counter the first line is the same too. The lines of the entries and the
  two reported counts are among these events.
\<close>

theorem unchanged_world_repeats_the_iteration:
  assumes "static w"
  shows "new_events s (scan_iteration w s) =
           Printf ''\<newline>[Iteration %d - %s]\<newline>''
             [Num (sint (iteration s + 1)),
              Str (if iteration s + 1 = 1 then ''First scan'' else ''Periodic scan'')] #
           tl (new_events s (scan_iteration w s)) \<and>
         tl (new_events (scan_iteration w s) (scan_iteration w (scan_iteration w s))) =
           tl (new_events s (scan_iteration w s)) \<and>
         tl (new_events s' (scan_iteration w s')) = tl (new_events s (scan_iteration w s)) \<and>
         (iteration s' = iteration s \<longrightarrow>
            new_events s' (scan_iteration w s') = new_events s (scan_iteration w s))"
  using static_scan_iteration [OF assms] scan_iteration_first_line [of s w] by blast

text \<open>The small world, twice in a row and from a state that differs in every other field.\<close>

theorem unchanged_world_repeats_the_iteration_witness:
  "tl (new_events (scan_iteration small_world start)
         (scan_iteration small_world (scan_iteration small_world start))) =
   tl (new_events start (scan_iteration small_world start)) \<and>
   new_events
     (start\<lparr>count := 7, st := regular 1, files_read := 3, clock := 99, trace := [Sleep 10]\<rparr>)
     (scan_iteration small_world
        (start\<lparr>count := 7, st := regular 1, files_read := 3, clock := 99, trace := [Sleep 10]\<rparr>)) =
   new_events start (scan_iteration small_world start)"
proof -
  have "static small_world"
    unfolding small_world_def by (rule static_table_world)
  from unchanged_world_repeats_the_iteration [OF this, of start
      "start\<lparr>count := 7, st := regular 1, files_read := 3, clock := 99, trace := [Sleep 10]\<rparr>"]
  show ?thesis
    by (simp add: start_def)
qed





end
